theory Spec2Isabelle
  imports Main "HOL-Library.AList" "HOL-Library.Sublist"
begin

section \<open>Types and values as the mapper sees them through reflection\<close>

text \<open>
  The mapper of \<^verbatim>\<open>dto.go\<close> never touches a Go value directly: it works on
  \<^verbatim>\<open>reflect.Type\<close> and \<^verbatim>\<open>reflect.Value\<close>. The model keeps exactly what the
  code reads of them. A type is its kind together with its identity; a value is a tree
  that carries the types of its parts, so that its type can be read off it.

  Only the kinds the dispatcher tells apart are listed; every other basic kind of Go
  (the sized integers, the floats) behaves as \<open>KInt\<close> does: not a pointer and not composite.

  What the model leaves out: two pointers to one object (a pointer owns its pointee, so
  a value is a tree), the difference between a nil and an empty slice or map, and
  unexported struct fields, on which \<^verbatim>\<open>Set\<close> panics (every field is taken to be
  exported). The entries of a map are kept in the order in which \<^verbatim>\<open>MapRange\<close>
  yields them, an order that Go does not specify.
\<close>

datatype kind = KBool | KInt | KString | KInterface | KPtr | KStruct | KSlice | KMap

datatype prim = PBool | PInt | PString | PInterface

datatype 'T sfield =
  StructField (Name: string) (Type: 'T) (Anonymous: bool) (Tag: "(string \<times> string) list")

datatype rtype =
    BasicT string prim
  | PtrT rtype
  | SliceT rtype
  | MapT rtype rtype
  | StructT string "rtype sfield list"

datatype lit = LBool bool | LInt int | LStr string | LIface

datatype val =
    VBasic string prim lit
  | VPtr rtype "val option"
  | VStruct string "(rtype sfield \<times> val) list"
  | VSlice rtype "val list"
  | VMap rtype rtype "(val \<times> val) list"

fun primKind :: "prim \<Rightarrow> kind" where
  "primKind PBool = KBool"
| "primKind PInt = KInt"
| "primKind PString = KString"
| "primKind PInterface = KInterface"

fun Kind :: "rtype \<Rightarrow> kind" where
  "Kind (BasicT n p) = primKind p"
| "Kind (PtrT e) = KPtr"
| "Kind (SliceT e) = KSlice"
| "Kind (MapT k e) = KMap"
| "Kind (StructT n fs) = KStruct"

fun TypeOf :: "val \<Rightarrow> rtype" where
  "TypeOf (VBasic n p l) = BasicT n p"
| "TypeOf (VPtr e p) = PtrT e"
| "TypeOf (VStruct n fvs) = StructT n (map fst fvs)"
| "TypeOf (VSlice e vs) = SliceT e"
| "TypeOf (VMap k e kvs) = MapT k e"

fun ElemT :: "rtype \<Rightarrow> rtype" where
  "ElemT (PtrT e) = e"
| "ElemT (SliceT e) = e"
| "ElemT (MapT k e) = e"
| "ElemT t = t"

fun KeyT :: "rtype \<Rightarrow> rtype" where
  "KeyT (MapT k e) = k"
| "KeyT t = t"

fun primZero :: "prim \<Rightarrow> lit" where
  "primZero PBool = LBool False"
| "primZero PInt = LInt 0"
| "primZero PString = LStr []"
| "primZero PInterface = LIface"

lemma size_Type_field: "size (Type f) \<le> size_sfield size f"
  by (cases f) simp

lemma size_Type_less [termination_simp]:
  "f \<in> set fs \<Longrightarrow> size (Type f) < Suc (size_list (size_sfield size) fs)"
proof (induction fs)
  case Nil
  then show ?case by simp
next
  case (Cons g gs)
  show ?case
  proof (cases "f = g")
    case True
    with size_Type_field [of g] show ?thesis by simp
  next
    case False
    with Cons show ?thesis by simp
  qed
qed

fun zero :: "rtype \<Rightarrow> val" where
  "zero (BasicT n p) = VBasic n p (primZero p)"
| "zero (PtrT e) = VPtr e None"
| "zero (SliceT e) = VSlice e []"
| "zero (MapT k e) = VMap k e []"
| "zero (StructT n fs) = VStruct n (map (\<lambda>f. (f, zero (Type f))) fs)"

text \<open>
  The accessors of \<^verbatim>\<open>reflect.Value\<close> the mapper calls. Where Go panics (an index
  out of range, \<^verbatim>\<open>Elem\<close> of something that is no pointer) the accessor returns
  \<open>None\<close>, and the caller turns that into the outcome \<open>Panic\<close>.
\<close>

fun Len :: "val \<Rightarrow> nat" where
  "Len (VSlice e vs) = length vs"
| "Len (VMap k e kvs) = length kvs"
| "Len v = 0"

fun Index :: "val \<Rightarrow> nat \<Rightarrow> val option" where
  "Index (VSlice e vs) i = (if i < length vs then Some (vs ! i) else None)"
| "Index v i = None"

fun SetIndex :: "val \<Rightarrow> nat \<Rightarrow> val \<Rightarrow> val" where
  "SetIndex (VSlice e vs) i x = VSlice e (vs[i := x])"
| "SetIndex v i x = v"

fun MapRange :: "val \<Rightarrow> (val \<times> val) list" where
  "MapRange (VMap k e kvs) = kvs"
| "MapRange v = []"

fun SetMapIndex :: "val \<Rightarrow> val \<Rightarrow> val \<Rightarrow> val" where
  "SetMapIndex (VMap k e kvs) key x = VMap k e (AList.update key x kvs)"
| "SetMapIndex v key x = v"

text \<open>\<^verbatim>\<open>IsNil\<close>, which the mapper calls on pointers only.\<close>

fun IsNil :: "val \<Rightarrow> bool" where
  "IsNil (VPtr e None) = True"
| "IsNil v = False"

fun Elem :: "val \<Rightarrow> val option" where
  "Elem (VPtr e p) = p"
| "Elem v = None"

fun SetElem :: "val \<Rightarrow> val \<Rightarrow> val" where
  "SetElem (VPtr e p) x = VPtr e (Some x)"
| "SetElem v x = v"

definition New :: "rtype \<Rightarrow> val" where
  "New t = VPtr t (Some (zero t))"

definition MakeSlice :: "rtype \<Rightarrow> nat \<Rightarrow> val" where
  "MakeSlice t n = VSlice (ElemT t) (replicate n (zero (ElemT t)))"

definition MakeMapWithSize :: "rtype \<Rightarrow> nat \<Rightarrow> val" where
  "MakeMapWithSize t n = VMap (KeyT t) (ElemT t) []"

text \<open>
  A field of a struct, reached through anonymous fields, is addressed by the list of
  field indices that leads to it: this is the \<^verbatim>\<open>reflect.Value\<close> that
  \<^verbatim>\<open>rfValue.Field(i)\<close> returns, a reference into the struct and not a copy.
\<close>

type_synonym fieldRef = "nat list"

fun Field :: "val \<Rightarrow> nat \<Rightarrow> val option" where
  "Field (VStruct n fvs) i = (if i < length fvs then Some (snd (fvs ! i)) else None)"
| "Field v i = None"

fun getField :: "val \<Rightarrow> fieldRef \<Rightarrow> val option" where
  "getField v [] = Some v"
| "getField v (i # r) = (case Field v i of None \<Rightarrow> None | Some w \<Rightarrow> getField w r)"

fun setField :: "val \<Rightarrow> fieldRef \<Rightarrow> val \<Rightarrow> val" where
  "setField v [] x = x"
| "setField (VStruct n fvs) (i # r) x =
     (if i < length fvs then VStruct n (fvs[i := (fst (fvs ! i), setField (snd (fvs ! i)) r x)])
      else VStruct n fvs)"
| "setField v (i # r) x = v"

section \<open>The struct field resolver\<close>

text \<open>
  The repository holds the engine twice: \<^verbatim>\<open>src/dto.go\<close> and a second file whose
  name is not known (\<^verbatim>\<open>src/unnamed/part_000\<close>). They differ in two places only, and
  the model takes the file as a parameter instead of writing every function twice:
  \<^item> \<^verbatim>\<open>collectStructFields\<close> of \<open>Part000\<close> skips a field whose \<^verbatim>\<open>dto\<close> tag
    contains \<^verbatim>\<open>ignore\<close>; \<open>DtoGo\<close> reads no tag;
  \<^item> \<^verbatim>\<open>mapValue\<close> of \<open>DtoGo\<close> guards direct assignment and conversion with
    \<^verbatim>\<open>!m.HasCustomFuncs() || !isCompositeKind(fk)\<close>; \<open>Part000\<close> has no guard.
\<close>

datatype variant = DtoGo | Part000

definition structTag :: string where
  "structTag = ''dto''"

text \<open>
  \<^verbatim>\<open>strings.Contains(s, substr)\<close>: \<open>substr\<close> occurs in \<open>s\<close> as a contiguous run.
\<close>

fun HasPrefix :: "string \<Rightarrow> string \<Rightarrow> bool" where
  "HasPrefix s [] = True"
| "HasPrefix [] (c # cs) = False"
| "HasPrefix (d # ds) (c # cs) = (d = c \<and> HasPrefix ds cs)"

fun Contains :: "string \<Rightarrow> string \<Rightarrow> bool" where
  "Contains [] substr = (substr = [])"
| "Contains (d # ds) substr = (HasPrefix (d # ds) substr \<or> Contains ds substr)"

text \<open>
  \<^verbatim>\<open>fieldType.Tag.Lookup(key)\<close>: the tag is kept already split into its
  \<^verbatim>\<open>key:"value"\<close> pairs.
\<close>

definition Lookup :: "(string \<times> string) list \<Rightarrow> string \<Rightarrow> string option" where
  "Lookup tag key = map_of tag key"

definition ignoredField :: "variant \<Rightarrow> rtype sfield \<Rightarrow> bool" where
  "ignoredField var fieldType =
     (case var of
        DtoGo \<Rightarrow> False
      | Part000 \<Rightarrow>
          (case Lookup (Tag fieldType) structTag of
             Some tags \<Rightarrow> Contains tags ''ignore''
           | None \<Rightarrow> False))"

type_synonym structValueMap = "(string \<times> fieldRef) list"

text \<open>
  \<^verbatim>\<open>collectStructFields(rfValue, rfType, fields)\<close>. The loop over
  \<^verbatim>\<open>i < rfType.NumField()\<close> is \<open>collectFrom\<close>, which walks the declared fields
  from index \<open>i\<close>. \<^verbatim>\<open>NumField\<close> panics on a type that is not a struct, which an
  anonymous field may be (an embedded interface or pointer): the result is then
  \<open>None\<close>. An assignment \<^verbatim>\<open>fields[name] = v\<close> replaces the entry of a name already
  present and appends a new name.
\<close>

function (sequential) collectStructFields ::
    "variant \<Rightarrow> fieldRef \<Rightarrow> rtype \<Rightarrow> structValueMap \<Rightarrow> structValueMap option"
  and collectFrom ::
    "variant \<Rightarrow> fieldRef \<Rightarrow> rtype sfield list \<Rightarrow> nat \<Rightarrow> structValueMap \<Rightarrow> structValueMap option"
where
  "collectStructFields var rfValue (StructT n fs) fields = collectFrom var rfValue fs 0 fields"
| "collectStructFields var rfValue (BasicT n p) fields = None"
| "collectStructFields var rfValue (PtrT e) fields = None"
| "collectStructFields var rfValue (SliceT e) fields = None"
| "collectStructFields var rfValue (MapT k e) fields = None"
| "collectFrom var rfValue [] i fields = Some fields"
| "collectFrom var rfValue (fieldType # rest) i fields =
     (if ignoredField var fieldType then collectFrom var rfValue rest (i + 1) fields
      else if Anonymous fieldType then
        (case collectStructFields var (rfValue @ [i]) (Type fieldType) fields of
           None \<Rightarrow> None
         | Some fields' \<Rightarrow> collectFrom var rfValue rest (i + 1) fields')
      else collectFrom var rfValue rest (i + 1)
             (AList.update (Name fieldType) (rfValue @ [i]) fields))"
  by pat_completeness auto
termination
proof (relation "measure (\<lambda>x. case x of
          Inl (var, rfValue, rfType, fields) \<Rightarrow> size rfType
        | Inr (var, rfValue, fs, i, fields) \<Rightarrow> size_list (size_sfield size) fs)")
  fix fieldType :: "rtype sfield"
  have "size (Type fieldType) < Suc (size_sfield size fieldType)"
    using size_Type_field [of fieldType] by simp
  then show "\<And>var rfValue rest i fields.
      \<not> ignoredField var fieldType \<Longrightarrow> Anonymous fieldType \<Longrightarrow>
      (Inl (var, rfValue @ [i], Type fieldType, fields),
       Inr (var, rfValue, fieldType # rest, i, fields))
      \<in> measure (\<lambda>x. case x of
          Inl (var, rfValue, rfType, fields) \<Rightarrow> size rfType
        | Inr (var, rfValue, fs, i, fields) \<Rightarrow> size_list (size_sfield size) fs)"
    by simp
qed simp_all


section \<open>Errors and the function registry\<close>

text \<open>
  \<^verbatim>\<open>ErrNoValidMapping\<close> (named \<^verbatim>\<open>NoValidMappingError\<close> in the second file) is a
  struct of two types; every other error comes from a caller's function and is opaque.
  A call ends with no error, with an error, or in a panic.
\<close>

datatype error = ErrNoValidMapping (ToType: rtype) (FromType: rtype) | UserError string

datatype outcome = NoError | Error error | Panic

text \<open>
  The closures the registry stores. Each is already closed over the mapper it is handed
  in Go, and an inspection closure, which mutates its destination through a pointer,
  returns the destination as it leaves it. Go's types make a conversion closure return a
  value of the destination's type and an inspection closure keep the type of its
  destination; the model reads the type of a destination off its value and takes the
  closures to respect that. A closure that panics is not modelled.
\<close>

type_synonym convertFuncClosure = "val \<Rightarrow> val \<times> error option"
type_synonym inspectFuncClosure = "val \<Rightarrow> val \<Rightarrow> val \<times> error option"

record Mapper =
  convFunc :: "(rtype \<times> (rtype \<times> convertFuncClosure) list) list"
  postFunc :: "(rtype \<times> (rtype \<times> inspectFuncClosure list) list) list"

definition nilRecvRfType :: rtype where
  "nilRecvRfType = StructT ''nilRecvT'' []"

fun isCompositeKind :: "kind \<Rightarrow> bool" where
  "isCompositeKind KStruct = True"
| "isCompositeKind KSlice = True"
| "isCompositeKind KMap = True"
| "isCompositeKind k = False"

text \<open>The inner loop of \<^verbatim>\<open>runInspectFuncs\<close>: \<^verbatim>\<open>for _, fun := range funcs\<close>.\<close>

fun inspectEach :: "inspectFuncClosure list \<Rightarrow> val \<Rightarrow> val \<Rightarrow> outcome \<times> val" where
  "inspectEach [] toRv fromRv = (NoError, toRv)"
| "inspectEach (func # funcs) toRv fromRv =
     (case func toRv fromRv of
        (toRv', Some err) \<Rightarrow> (Error err, toRv')
      | (toRv', None) \<Rightarrow> inspectEach funcs toRv' fromRv)"

text \<open>The outer loop: \<^verbatim>\<open>for _, recvType := range []reflect.Type{...}\<close>.\<close>

fun inspectRecv ::
  "(rtype \<times> inspectFuncClosure list) list \<Rightarrow> rtype list \<Rightarrow> val \<Rightarrow> val \<Rightarrow> outcome \<times> val" where
  "inspectRecv toMap [] toRv fromRv = (NoError, toRv)"
| "inspectRecv toMap (recvType # rest) toRv fromRv =
     (case map_of toMap recvType of
        None \<Rightarrow> inspectRecv toMap rest toRv fromRv
      | Some funcs \<Rightarrow>
          (case inspectEach funcs toRv fromRv of
             (NoError, toRv') \<Rightarrow> inspectRecv toMap rest toRv' fromRv
           | (err, toRv') \<Rightarrow> (err, toRv')))"

definition runInspectFuncs :: "Mapper \<Rightarrow> val \<Rightarrow> val \<Rightarrow> outcome \<times> val" where
  "runInspectFuncs m toRv fromRv =
     (case map_of (postFunc m) (TypeOf toRv) of
        None \<Rightarrow> (NoError, toRv)
      | Some toMap \<Rightarrow> inspectRecv toMap [TypeOf fromRv, nilRecvRfType] toRv fromRv)"

definition runConvFuncs :: "Mapper \<Rightarrow> val \<Rightarrow> val \<Rightarrow> bool \<times> outcome \<times> val" where
  "runConvFuncs m toRv fromRv =
     (case map_of (convFunc m) (TypeOf fromRv) of
        None \<Rightarrow> (False, NoError, toRv)
      | Some toMap \<Rightarrow>
          (case map_of toMap (TypeOf toRv) of
             Some convertFunc \<Rightarrow>
               (case convertFunc fromRv of
                  (v, Some err) \<Rightarrow> (True, Error err, toRv)
                | (v, None) \<Rightarrow> (True, NoError, v))
           | None \<Rightarrow> (False, NoError, toRv)))"

definition HasCustomFuncs :: "Mapper \<Rightarrow> bool" where
  "HasCustomFuncs m = (length (convFunc m) + length (postFunc m) > 0)"

text \<open>
  Registration. The signature of the callable is read by reflection in Go; here the
  caller passes what that reading yields: the type of the first parameter, the type of
  the first result (or of the second parameter), and the closure.
\<close>

definition AddConvFunc :: "Mapper \<Rightarrow> rtype \<Rightarrow> rtype \<Rightarrow> convertFuncClosure \<Rightarrow> Mapper" where
  "AddConvFunc m inType outType f =
     (let inner = (case map_of (convFunc m) inType of None \<Rightarrow> [] | Some toMap \<Rightarrow> toMap)
      in m\<lparr>convFunc := AList.update inType (AList.update outType f inner) (convFunc m)\<rparr>)"

definition AddInspectFunc :: "Mapper \<Rightarrow> rtype \<Rightarrow> rtype \<Rightarrow> inspectFuncClosure \<Rightarrow> Mapper" where
  "AddInspectFunc m inType fromType f =
     (let inner = (case map_of (postFunc m) inType of None \<Rightarrow> [] | Some toMap \<Rightarrow> toMap);
          funcs = (case map_of inner fromType of None \<Rightarrow> [] | Some fs \<Rightarrow> fs)
      in m\<lparr>postFunc := AList.update inType (AList.update fromType (funcs @ [f]) inner) (postFunc m)\<rparr>)"

section \<open>The composite transformers\<close>

text \<open>
  Each transformer calls \<^verbatim>\<open>m.mapValue\<close> on the parts of its arguments. The model
  passes that function in as \<open>mv\<close> and ties the knot in \<open>mapValue\<close> below.

  \<open>mapAt\<close> is the call \<^verbatim>\<open>m.mapValue(toRv.Index(i), x)\<close>: the element is mapped in
  place, whatever the outcome.
\<close>

type_synonym mapFn = "val \<Rightarrow> val \<Rightarrow> outcome \<times> val"

definition mapAt :: "mapFn \<Rightarrow> val \<Rightarrow> nat \<Rightarrow> val \<Rightarrow> outcome \<times> val" where
  "mapAt mv toRv i x =
     (case Index toRv i of
        None \<Rightarrow> (Panic, toRv)
      | Some d \<Rightarrow> (case mv d x of (err, d') \<Rightarrow> (err, SetIndex toRv i d')))"

fun Elems :: "val \<Rightarrow> val list" where
  "Elems (VSlice e vs) = vs"
| "Elems v = []"

text \<open>\<^verbatim>\<open>for i := 0; i < fromRv.Len(); i++\<close>, on the elements from index \<open>i\<close> on.\<close>

fun mapSliceFrom :: "mapFn \<Rightarrow> val \<Rightarrow> nat \<Rightarrow> val list \<Rightarrow> outcome \<times> val" where
  "mapSliceFrom mv toRv i [] = (NoError, toRv)"
| "mapSliceFrom mv toRv i (x # xs) =
     (case mapAt mv toRv i x of
        (NoError, toRv') \<Rightarrow> mapSliceFrom mv toRv' (i + 1) xs
      | (err, toRv') \<Rightarrow> (err, toRv'))"

definition mapSlice :: "mapFn \<Rightarrow> val \<Rightarrow> val \<Rightarrow> outcome \<times> val" where
  "mapSlice mv toRv fromRv =
     mapSliceFrom mv (MakeSlice (TypeOf toRv) (Len fromRv)) 0 (Elems fromRv)"

fun mapMapFrom :: "mapFn \<Rightarrow> val \<Rightarrow> (val \<times> val) list \<Rightarrow> outcome \<times> val" where
  "mapMapFrom mv toRv [] = (NoError, toRv)"
| "mapMapFrom mv toRv ((k, v) # rest) =
     (let toKey = zero (KeyT (TypeOf toRv)); toValue = zero (ElemT (TypeOf toRv)) in
      case mv toKey k of
        (NoError, toKey') \<Rightarrow>
          (case mv toValue v of
             (NoError, toValue') \<Rightarrow> mapMapFrom mv (SetMapIndex toRv toKey' toValue') rest
           | (err, toValue') \<Rightarrow> (err, toRv))
      | (err, toKey') \<Rightarrow> (err, toRv))"

definition mapMap :: "mapFn \<Rightarrow> val \<Rightarrow> val \<Rightarrow> outcome \<times> val" where
  "mapMap mv toRv fromRv =
     mapMapFrom mv (MakeMapWithSize (TypeOf toRv) (Len fromRv)) (MapRange fromRv)"

text \<open>
  \<^verbatim>\<open>for fieldName, toValue := range toFields\<close>. Go ranges over a map in an order it
  does not specify; the model takes the order in which the names were first inserted.
\<close>

fun mapStructsFrom ::
  "mapFn \<Rightarrow> structValueMap \<Rightarrow> val \<Rightarrow> val \<Rightarrow> structValueMap \<Rightarrow> outcome \<times> val" where
  "mapStructsFrom mv fromFields toRv fromRv [] = (NoError, toRv)"
| "mapStructsFrom mv fromFields toRv fromRv ((fieldName, toValue) # rest) =
     (case map_of fromFields fieldName of
        None \<Rightarrow> mapStructsFrom mv fromFields toRv fromRv rest
      | Some fromValue \<Rightarrow>
          (case getField fromRv fromValue of
             None \<Rightarrow> (Panic, toRv)
           | Some s \<Rightarrow>
               (case getField toRv toValue of
                  None \<Rightarrow> (Panic, toRv)
                | Some d \<Rightarrow>
                    (case mv d s of
                       (NoError, d') \<Rightarrow>
                         mapStructsFrom mv fromFields (setField toRv toValue d') fromRv rest
                     | (err, d') \<Rightarrow> (err, setField toRv toValue d')))))"

definition mapStructs :: "variant \<Rightarrow> mapFn \<Rightarrow> val \<Rightarrow> val \<Rightarrow> outcome \<times> val" where
  "mapStructs var mv toRv fromRv =
     (case collectStructFields var [] (TypeOf toRv) [] of
        None \<Rightarrow> (Panic, toRv)
      | Some toFields \<Rightarrow>
          (case collectStructFields var [] (TypeOf fromRv) [] of
             None \<Rightarrow> (Panic, toRv)
           | Some fromFields \<Rightarrow> mapStructsFrom mv fromFields toRv fromRv toFields))"

text \<open>\<^verbatim>\<open>for mapIt.Next()\<close> of \<^verbatim>\<open>mapMapToSlice\<close>, with its counter \<open>i\<close>.\<close>

fun mapMapToSliceFrom :: "mapFn \<Rightarrow> val \<Rightarrow> nat \<Rightarrow> (val \<times> val) list \<Rightarrow> outcome \<times> val" where
  "mapMapToSliceFrom mv toRv i [] = (NoError, toRv)"
| "mapMapToSliceFrom mv toRv i ((k, v) # rest) =
     (case mapAt mv toRv i v of
        (NoError, toRv') \<Rightarrow> mapMapToSliceFrom mv toRv' (i + 1) rest
      | (err, toRv') \<Rightarrow> (err, toRv'))"

definition mapMapToSlice :: "mapFn \<Rightarrow> val \<Rightarrow> val \<Rightarrow> outcome \<times> val" where
  "mapMapToSlice mv toRv fromRv =
     mapMapToSliceFrom mv (MakeSlice (TypeOf toRv) (Len fromRv)) 0 (MapRange fromRv)"

text \<open>
  \<^verbatim>\<open>mapMapSlicesToSlice\<close>: the first loop adds up the lengths, the second fills the
  destination. Its inner loop \<^verbatim>\<open>for j := 0; j < mapSlice.Len(); i, j = i+1, j+1\<close>
  is \<open>flattenInner\<close>, which also returns the counter \<open>i\<close> it shares with the outer loop.
\<close>

fun sumLen :: "(val \<times> val) list \<Rightarrow> nat" where
  "sumLen [] = 0"
| "sumLen ((k, v) # rest) = Len v + sumLen rest"

fun flattenInner :: "mapFn \<Rightarrow> val \<Rightarrow> nat \<Rightarrow> val list \<Rightarrow> (outcome \<times> val) \<times> nat" where
  "flattenInner mv toRv i [] = ((NoError, toRv), i)"
| "flattenInner mv toRv i (x # xs) =
     (case mapAt mv toRv i x of
        (NoError, toRv') \<Rightarrow> flattenInner mv toRv' (i + 1) xs
      | (err, toRv') \<Rightarrow> ((err, toRv'), i))"

fun flattenOuter :: "mapFn \<Rightarrow> val \<Rightarrow> nat \<Rightarrow> (val \<times> val) list \<Rightarrow> outcome \<times> val" where
  "flattenOuter mv toRv i [] = (NoError, toRv)"
| "flattenOuter mv toRv i ((k, v) # rest) =
     (case flattenInner mv toRv i (Elems v) of
        ((NoError, toRv'), i') \<Rightarrow> flattenOuter mv toRv' i' rest
      | ((err, toRv'), i') \<Rightarrow> (err, toRv'))"

definition mapMapSlicesToSlice :: "mapFn \<Rightarrow> val \<Rightarrow> val \<Rightarrow> outcome \<times> val" where
  "mapMapSlicesToSlice mv toRv fromRv =
     (let n = sumLen (MapRange fromRv)
      in flattenOuter mv (MakeSlice (TypeOf toRv) n) 0 (MapRange fromRv))"

section \<open>The dispatcher\<close>

text \<open>
  \<^verbatim>\<open>AssignableTo\<close>, \<^verbatim>\<open>ConvertibleTo\<close> and \<^verbatim>\<open>Convert\<close> belong to Go's
  \<^verbatim>\<open>reflect\<close> package, not to this repository: the mapper takes them as a parameter,
  and every theorem holds for whatever they compute.
\<close>

record reflect =
  AssignableTo :: "rtype \<Rightarrow> rtype \<Rightarrow> bool"
  ConvertibleTo :: "rtype \<Rightarrow> rtype \<Rightarrow> bool"
  Convert :: "val \<Rightarrow> rtype \<Rightarrow> val"

text \<open>\<^verbatim>\<open>errors.As(err, &ErrNoValidMapping{})\<close>\<close>

fun AsErrNoValidMapping :: "outcome \<Rightarrow> bool" where
  "AsErrNoValidMapping (Error (ErrNoValidMapping t f)) = True"
| "AsErrNoValidMapping err = False"

text \<open>
  The condition under which steps 2 and 3 are tried: the guard of \<^verbatim>\<open>dto.go\<close>, and
  no condition in the second file.
\<close>

definition directAllowed :: "variant \<Rightarrow> Mapper \<Rightarrow> kind \<Rightarrow> bool" where
  "directAllowed var m fk =
     (case var of
        DtoGo \<Rightarrow> \<not> HasCustomFuncs m \<or> \<not> isCompositeKind fk
      | Part000 \<Rightarrow> True)"

text \<open>
  The body of \<^verbatim>\<open>mapValue\<close>, steps 1 to 9, without the deferred call; \<open>mv\<close> stands
  for the recursive calls.
\<close>

definition dispatch ::
  "variant \<Rightarrow> reflect \<Rightarrow> Mapper \<Rightarrow> mapFn \<Rightarrow> val \<Rightarrow> val \<Rightarrow> outcome \<times> val" where
  "dispatch var R m mv toRv fromRv =
     (let tk = Kind (TypeOf toRv); fk = Kind (TypeOf fromRv) in
      case runConvFuncs m toRv fromRv of (converted, err, toRv1) \<Rightarrow>
      if converted then (err, toRv1)
      else if directAllowed var m fk \<and> AssignableTo R (TypeOf fromRv) (TypeOf toRv)
        then (NoError, fromRv)
      else if directAllowed var m fk \<and> ConvertibleTo R (TypeOf fromRv) (TypeOf toRv)
        then (NoError, Convert R fromRv (TypeOf toRv))
      else if fk = KPtr then
        (if IsNil fromRv then (NoError, toRv)
         else (case Elem fromRv of
                 None \<Rightarrow> (Panic, toRv)
               | Some pointee \<Rightarrow> mv toRv pointee))
      else if tk = KPtr then
        (let toRv2 = (if IsNil toRv then New (ElemT (TypeOf toRv)) else toRv) in
         case Elem toRv2 of
           None \<Rightarrow> (Panic, toRv2)
         | Some d \<Rightarrow> (case mv d fromRv of (err, d') \<Rightarrow> (err, SetElem toRv2 d')))
      else if tk = KStruct \<and> fk = KStruct then mapStructs var mv toRv fromRv
      else if tk = KSlice \<and> fk = KSlice then mapSlice mv toRv fromRv
      else if tk = KMap \<and> fk = KMap then mapMap mv toRv fromRv
      else if tk = KSlice \<and> fk = KMap then
        (case mapMapToSlice mv toRv fromRv of (err, toRv3) \<Rightarrow>
           if err = Panic then (Panic, toRv3)
           else if AsErrNoValidMapping err \<and> Kind (ElemT (TypeOf fromRv)) = KSlice then
             (case mapMapSlicesToSlice mv toRv3 fromRv of (errFlatten, toRv4) \<Rightarrow>
                if errFlatten = NoError then (NoError, toRv4)
                else if errFlatten = Panic then (Panic, toRv4)
                else (err, toRv4))
           else (err, toRv3))
      else (Error (ErrNoValidMapping (TypeOf toRv) (TypeOf fromRv)), toRv))"

text \<open>The deferred function of \<^verbatim>\<open>mapValue\<close>.\<close>

definition deferred :: "Mapper \<Rightarrow> val \<Rightarrow> outcome \<times> val \<Rightarrow> outcome \<times> val" where
  "deferred m fromRv r =
     (case r of
        (NoError, toRv) \<Rightarrow> runInspectFuncs m toRv fromRv
      | (returnError, toRv) \<Rightarrow> (returnError, toRv))"

section \<open>Termination of the dispatcher\<close>

text \<open>
  Values are trees, so every recursive call of \<^verbatim>\<open>mapValue\<close> gets a proper part
  of the source, or the same source and a destination that is one pointer less deep.
  (Go can build a source that points back to itself; on such a value the mapper does not
  return, and the model has no such value.)
\<close>


fun vsize :: "val \<Rightarrow> nat" where
  "vsize (VBasic n p l) = 0"
| "vsize (VPtr e None) = 0"
| "vsize (VPtr e (Some v)) = 1 + vsize v"
| "vsize (VStruct n fvs) = 1 + sum_list (map (\<lambda>fv. vsize (snd fv)) fvs)"
| "vsize (VSlice e vs) = 1 + sum_list (map vsize vs)"
| "vsize (VMap k e kvs) = 1 + sum_list (map (\<lambda>kv. vsize (fst kv) + vsize (snd kv)) kvs)"

fun ptrDepth :: "rtype \<Rightarrow> nat" where
  "ptrDepth (PtrT e) = 1 + ptrDepth e"
| "ptrDepth t = 0"

fun ptrDepthOf :: "val \<Rightarrow> nat" where
  "ptrDepthOf (VPtr e None) = 1 + ptrDepth e"
| "ptrDepthOf (VPtr e (Some v)) = 1 + ptrDepthOf v"
| "ptrDepthOf v = 0"

lemma ptrDepthOf_zero: "ptrDepthOf (zero t) = ptrDepth t"
  by (cases t) simp_all

lemma vsize_member: "x \<in> set xs \<Longrightarrow> f x \<le> sum_list (map f xs)" for f :: "'a \<Rightarrow> nat"
  by (induction xs) auto

lemma vsize_Elems: "x \<in> set (Elems v) \<Longrightarrow> vsize x < vsize v"
  by (cases v) (auto simp: less_Suc_eq_le vsize_member)

lemma vsize_MapRange:
  assumes "(k, x) \<in> set (MapRange v)"
  shows "vsize k < vsize v" and "vsize x < vsize v"
proof -
  from assms obtain kt et kvs where v: "v = VMap kt et kvs" and m: "(k, x) \<in> set kvs"
    by (cases v) auto
  from vsize_member [OF m, of "\<lambda>kv. vsize (fst kv) + vsize (snd kv)"]
  show "vsize k < vsize v" and "vsize x < vsize v" using v by auto
qed

lemma vsize_Field: "Field v i = Some w \<Longrightarrow> vsize w < vsize v"
proof (cases v)
  case (VStruct n fvs)
  assume "Field v i = Some w"
  with VStruct have "i < length fvs" and w: "w = snd (fvs ! i)" by (auto split: if_splits)
  then have "fvs ! i \<in> set fvs" by simp
  from vsize_member [OF this, of "\<lambda>fv. vsize (snd fv)"] w VStruct show ?thesis by simp
qed simp_all

lemma vsize_getField_le: "getField v q = Some s \<Longrightarrow> vsize s \<le> vsize v"
proof (induction q arbitrary: v)
  case Nil
  then show ?case by simp
next
  case (Cons i r)
  then obtain w where w: "Field v i = Some w" and s: "getField w r = Some s"
    by (auto split: option.splits)
  from Cons.IH [OF s] vsize_Field [OF w] show ?case by simp
qed

lemma vsize_getField: "getField v q = Some s \<Longrightarrow> q \<noteq> [] \<Longrightarrow> vsize s < vsize v"
proof (cases q)
  case Nil
  assume "q \<noteq> []" with Nil show ?thesis by simp
next
  case (Cons i r)
  assume "getField v q = Some s"
  with Cons obtain w where w: "Field v i = Some w" and s: "getField w r = Some s"
    by (auto split: option.splits)
  from vsize_getField_le [OF s] vsize_Field [OF w] show ?thesis by simp
qed

lemma set_update_subset: "set (AList.update k v al) \<subseteq> insert (k, v) (set al)"
  by (induction al) auto

lemma collect_refs:
  "collectStructFields var p t acc = Some m \<Longrightarrow>
     \<forall>(k, q) \<in> set m. (k, q) \<in> set acc \<or> (\<exists>r. r \<noteq> [] \<and> q = p @ r)"
  "collectFrom var p fs i acc = Some m \<Longrightarrow>
     \<forall>(k, q) \<in> set m. (k, q) \<in> set acc \<or> (\<exists>r. r \<noteq> [] \<and> q = p @ r)"
proof (induction var p t acc and var p fs i acc arbitrary: m and m
    rule: collectStructFields_collectFrom.induct)
  case (7 var rfValue fieldType rest i fields)
  show ?case
  proof (cases "ignoredField var fieldType")
    case True
    with 7 show ?thesis by simp
  next
    case notIgnored: False
    show ?thesis
    proof (cases "Anonymous fieldType")
      case True
      with notIgnored "7.prems" obtain fields' where
        c1: "collectStructFields var (rfValue @ [i]) (Type fieldType) fields = Some fields'"
        and c2: "collectFrom var rfValue rest (i + 1) fields' = Some m"
        by (auto split: option.splits)
      from "7.IH"(2) [OF notIgnored True c1] have
        h1: "\<forall>(k, q) \<in> set fields'. (k, q) \<in> set fields \<or> (\<exists>r. r \<noteq> [] \<and> q = (rfValue @ [i]) @ r)" .
      from "7.IH"(3) [OF notIgnored True c1 c2] have
        h2: "\<forall>(k, q) \<in> set m. (k, q) \<in> set fields' \<or> (\<exists>r. r \<noteq> [] \<and> q = rfValue @ r)" .
      show ?thesis
      proof (clarify)
        fix k q assume kq: "(k, q) \<in> set m" and nin: "\<not> (\<exists>r. r \<noteq> [] \<and> q = rfValue @ r)"
        with h2 have "(k, q) \<in> set fields'" by auto
        with h1 have "(k, q) \<in> set fields \<or> (\<exists>r. r \<noteq> [] \<and> q = (rfValue @ [i]) @ r)" by auto
        with nin show "(k, q) \<in> set fields" by auto
      qed
    next
      case False
      with notIgnored "7.prems" have
        c: "collectFrom var rfValue rest (i + 1) (AList.update (Name fieldType) (rfValue @ [i]) fields) = Some m"
        by simp
      from "7.IH"(4) [OF notIgnored False c] have
        h: "\<forall>(k, q) \<in> set m. (k, q) \<in> set (AList.update (Name fieldType) (rfValue @ [i]) fields)
              \<or> (\<exists>r. r \<noteq> [] \<and> q = rfValue @ r)" .
      show ?thesis
      proof (clarify)
        fix k q assume kq: "(k, q) \<in> set m" and nin: "\<not> (\<exists>r. r \<noteq> [] \<and> q = rfValue @ r)"
        with h have "(k, q) \<in> set (AList.update (Name fieldType) (rfValue @ [i]) fields)" by auto
        with set_update_subset have "(k, q) = (Name fieldType, rfValue @ [i]) \<or> (k, q) \<in> set fields"
          by fastforce
        with nin show "(k, q) \<in> set fields" by auto
      qed
    qed
  qed
qed auto


lemma mapAt_cong:
  "(\<And>d. mv d x = mv' d x) \<Longrightarrow> mapAt mv toRv i x = mapAt mv' toRv i x"
  by (simp add: mapAt_def split: option.splits)

lemma mapSliceFrom_cong:
  "(\<And>d x. x \<in> set xs \<Longrightarrow> mv d x = mv' d x) \<Longrightarrow>
   mapSliceFrom mv toRv i xs = mapSliceFrom mv' toRv i xs"
proof (induction xs arbitrary: toRv i)
  case Nil
  show ?case by simp
next
  case (Cons x xs)
  have "mapAt mv toRv i x = mapAt mv' toRv i x"
    by (rule mapAt_cong) (simp add: Cons.prems)
  moreover have "mapSliceFrom mv t j xs = mapSliceFrom mv' t j xs" for t j
    by (rule Cons.IH) (simp add: Cons.prems)
  ultimately show ?case by (simp split: prod.splits outcome.splits)
qed

lemma mapMapToSliceFrom_cong:
  "(\<And>d k x. (k, x) \<in> set kvs \<Longrightarrow> mv d x = mv' d x) \<Longrightarrow>
   mapMapToSliceFrom mv toRv i kvs = mapMapToSliceFrom mv' toRv i kvs"
proof (induction kvs arbitrary: toRv i)
  case Nil
  show ?case by simp
next
  case (Cons kv kvs)
  obtain k x where kv: "kv = (k, x)" by (cases kv)
  have "mv d x = mv' d x" for d
    using Cons.prems [of k x d] by (simp add: kv)
  then have "mapAt mv toRv i x = mapAt mv' toRv i x"
    by (rule mapAt_cong)
  moreover have "mapMapToSliceFrom mv t j kvs = mapMapToSliceFrom mv' t j kvs" for t j
  proof (rule Cons.IH)
    fix d k x assume "(k, x) \<in> set kvs"
    then show "mv d x = mv' d x" using Cons.prems [of k x d] by simp
  qed
  ultimately show ?case by (simp add: kv split: prod.splits outcome.splits)
qed

lemma flattenInner_cong:
  "(\<And>d x. x \<in> set xs \<Longrightarrow> mv d x = mv' d x) \<Longrightarrow>
   flattenInner mv toRv i xs = flattenInner mv' toRv i xs"
proof (induction xs arbitrary: toRv i)
  case Nil
  show ?case by simp
next
  case (Cons x xs)
  have "mapAt mv toRv i x = mapAt mv' toRv i x"
    by (rule mapAt_cong) (simp add: Cons.prems)
  moreover have "flattenInner mv t j xs = flattenInner mv' t j xs" for t j
    by (rule Cons.IH) (simp add: Cons.prems)
  ultimately show ?case by (simp split: prod.splits outcome.splits)
qed

lemma flattenOuter_cong:
  "(\<And>d k v x. (k, v) \<in> set kvs \<Longrightarrow> x \<in> set (Elems v) \<Longrightarrow> mv d x = mv' d x) \<Longrightarrow>
   flattenOuter mv toRv i kvs = flattenOuter mv' toRv i kvs"
proof (induction kvs arbitrary: toRv i)
  case Nil
  show ?case by simp
next
  case (Cons kv kvs)
  obtain k v where kv: "kv = (k, v)" by (cases kv)
  have "flattenInner mv toRv i (Elems v) = flattenInner mv' toRv i (Elems v)"
  proof (rule flattenInner_cong)
    fix d x assume "x \<in> set (Elems v)"
    then show "mv d x = mv' d x" using Cons.prems [of k v x d] by (simp add: kv)
  qed
  moreover have "flattenOuter mv t j kvs = flattenOuter mv' t j kvs" for t j
  proof (rule Cons.IH)
    fix d k v x assume "(k, v) \<in> set kvs" and "x \<in> set (Elems v)"
    then show "mv d x = mv' d x" using Cons.prems [of k v x d] by simp
  qed
  ultimately show ?case by (simp add: kv split: prod.splits outcome.splits)
qed

lemma mapMapFrom_cong:
  "(\<And>d k v. (k, v) \<in> set kvs \<Longrightarrow> mv d k = mv' d k \<and> mv d v = mv' d v) \<Longrightarrow>
   mapMapFrom mv toRv kvs = mapMapFrom mv' toRv kvs"
proof (induction kvs arbitrary: toRv)
  case Nil
  show ?case by simp
next
  case (Cons kv kvs)
  obtain k v where kv: "kv = (k, v)" by (cases kv)
  have here: "mv d k = mv' d k" "mv d v = mv' d v" for d
    using Cons.prems [of k v d] by (simp_all add: kv)
  have "mapMapFrom mv t kvs = mapMapFrom mv' t kvs" for t
  proof (rule Cons.IH)
    fix d k v assume "(k, v) \<in> set kvs"
    then show "mv d k = mv' d k \<and> mv d v = mv' d v" using Cons.prems [of k v d] by simp
  qed
  with here show ?case by (simp add: kv split: prod.splits outcome.splits)
qed

lemma mapStructsFrom_cong:
  "(\<And>d s k q. (k, q) \<in> set fromFields \<Longrightarrow> getField fromRv q = Some s \<Longrightarrow> mv d s = mv' d s) \<Longrightarrow>
   mapStructsFrom mv fromFields toRv fromRv toFields
     = mapStructsFrom mv' fromFields toRv fromRv toFields"
proof (induction toFields arbitrary: toRv)
  case Nil
  show ?case by simp
next
  case (Cons np toFields)
  obtain fieldName toValue where np: "np = (fieldName, toValue)" by (cases np)
  have rest: "mapStructsFrom mv fromFields t fromRv toFields
      = mapStructsFrom mv' fromFields t fromRv toFields" for t
    by (rule Cons.IH) (rule Cons.prems)
  show ?case
  proof (cases "map_of fromFields fieldName")
    case None
    with rest show ?thesis by (simp add: np)
  next
    case (Some fromValue)
    then have mem: "(fieldName, fromValue) \<in> set fromFields" by (rule map_of_SomeD)
    show ?thesis
    proof (cases "getField fromRv fromValue")
      case None
      with Some show ?thesis by (simp add: np)
    next
      case s: (Some s)
      have "mv d s = mv' d s" for d by (rule Cons.prems [OF mem s])
      with rest Some s show ?thesis
        by (simp add: np split: option.splits prod.splits outcome.splits)
    qed
  qed
qed

text \<open>
  What \<open>dispatch\<close> asks of \<open>mv\<close>: it is called on a proper part of the source, or on the
  source itself with a destination that is one pointer less deep.
\<close>

lemma dispatch_cong [fundef_cong]:
  assumes "var = var'" "R = R'" "m = m'" "toRv = toRv'" "fromRv = fromRv'"
    and rec: "\<And>d s. vsize s < vsize fromRv' \<or> (s = fromRv' \<and> ptrDepthOf d < ptrDepthOf toRv')
               \<Longrightarrow> mv d s = mv' d s"
  shows "dispatch var R m mv toRv fromRv = dispatch var' R' m' mv' toRv' fromRv'"
proof -
  have sub: "mv d s = mv' d s" if "vsize s < vsize fromRv'" for d s
    using rec that by blast
  have structs: "mapStructs var' mv toRv' fromRv' = mapStructs var' mv' toRv' fromRv'"
  proof -
    have "mapStructsFrom mv fromFields toRv' fromRv' toFields
        = mapStructsFrom mv' fromFields toRv' fromRv' toFields"
      if c: "collectStructFields var' [] (TypeOf fromRv') [] = Some fromFields"
      for fromFields toFields
    proof (rule mapStructsFrom_cong)
      fix d s k q
      assume kq: "(k, q) \<in> set fromFields" and s: "getField fromRv' q = Some s"
      from collect_refs(1) [OF c] kq have "q \<noteq> []" by auto
      from vsize_getField [OF s this] show "mv d s = mv' d s" by (rule sub)
    qed
    then show ?thesis by (simp add: mapStructs_def split: option.splits)
  qed
  have slice: "mapSlice mv toRv' fromRv' = mapSlice mv' toRv' fromRv'"
    unfolding mapSlice_def by (rule mapSliceFrom_cong) (rule sub, rule vsize_Elems)
  have "mapMapFrom mv t (MapRange fromRv') = mapMapFrom mv' t (MapRange fromRv')" for t
    by (rule mapMapFrom_cong) (auto intro!: sub dest: vsize_MapRange)
  then have maps: "mapMap mv toRv' fromRv' = mapMap mv' toRv' fromRv'"
    by (simp add: mapMap_def)
  have toSlice: "mapMapToSlice mv toRv' fromRv' = mapMapToSlice mv' toRv' fromRv'"
    unfolding mapMapToSlice_def
    by (rule mapMapToSliceFrom_cong) (auto intro!: sub dest: vsize_MapRange)
  have "flattenOuter mv t 0 (MapRange fromRv') = flattenOuter mv' t 0 (MapRange fromRv')" for t
  proof (rule flattenOuter_cong)
    fix d k v x
    assume "(k, v) \<in> set (MapRange fromRv')" and "x \<in> set (Elems v)"
    then have "vsize x < vsize fromRv'"
      using vsize_MapRange(2) [of k v fromRv'] vsize_Elems [of x v] by simp
    then show "mv d x = mv' d x" by (rule sub)
  qed
  then have flatten: "mapMapSlicesToSlice mv t fromRv' = mapMapSlicesToSlice mv' t fromRv'" for t
    by (simp add: mapMapSlicesToSlice_def)
  have srcPtr: "mv toRv' pointee = mv' toRv' pointee" if "Elem fromRv' = Some pointee" for pointee
  proof -
    from that have "vsize pointee < vsize fromRv'" by (cases fromRv') auto
    then show ?thesis by (rule sub)
  qed
  have dstPtr: "mv d fromRv' = mv' d fromRv'"
    if "Kind (TypeOf toRv') = KPtr"
      and "Elem (if IsNil toRv' then New (ElemT (TypeOf toRv')) else toRv') = Some d" for d
  proof -
    from that have "ptrDepthOf d < ptrDepthOf toRv'"
      by (cases toRv' rule: ptrDepthOf.cases) (auto simp: New_def ptrDepthOf_zero split: if_splits)
    then show ?thesis using rec by blast
  qed
  show ?thesis
    unfolding assms(1-5) dispatch_def Let_def
    by (simp only: structs slice maps toSlice flatten srcPtr dstPtr
        cong: if_cong option.case_cong prod.case_cong)
qed

text \<open>
  \<^verbatim>\<open>mapValue\<close>: the body, then the deferred inspection. The destination is passed
  in as it is before the call and returned as it is after it. Once a call has panicked
  the destination is not tracked any further.
\<close>

function mapValue :: "variant \<Rightarrow> reflect \<Rightarrow> Mapper \<Rightarrow> val \<Rightarrow> val \<Rightarrow> outcome \<times> val" where
  "mapValue var R m toRv fromRv =
     deferred m fromRv (dispatch var R m (mapValue var R m) toRv fromRv)"
  by pat_completeness auto
termination
  by (relation "measures [\<lambda>(var, R, m, toRv, fromRv). vsize fromRv,
                          \<lambda>(var, R, m, toRv, fromRv). ptrDepthOf toRv]") auto


declare mapValue.simps [simp del]

section \<open>Fixtures\<close>

text \<open>
  The types and values the examples below run on. \<open>reflectIdentical\<close> is the smallest
  \<^verbatim>\<open>reflect\<close> that agrees with Go on the examples: a type is assignable and
  convertible to itself and to nothing else.
\<close>

definition stringT :: rtype where
  "stringT = BasicT ''string'' PString"

definition intT :: rtype where
  "intT = BasicT ''int'' PInt"

definition str :: "string \<Rightarrow> val" where
  "str s = VBasic ''string'' PString (LStr s)"

definition reflectIdentical :: reflect where
  "reflectIdentical =
     \<lparr>AssignableTo = (\<lambda>fromT toT. fromT = toT),
      ConvertibleTo = (\<lambda>fromT toT. fromT = toT),
      Convert = (\<lambda>v t. v)\<rparr>"

definition emptyMapper :: Mapper where
  "emptyMapper = \<lparr>convFunc = [], postFunc = []\<rparr>"

section \<open>Conversion functions come first\<close>

text \<open>The conversion function registered for a pair of types, if there is one.\<close>

definition registeredConv :: "Mapper \<Rightarrow> rtype \<Rightarrow> rtype \<Rightarrow> convertFuncClosure option" where
  "registeredConv m srcT dstT =
     (case map_of (convFunc m) srcT of None \<Rightarrow> None | Some toMap \<Rightarrow> map_of toMap dstT)"

lemma runConvFuncs_registered:
  "registeredConv m (TypeOf fromRv) (TypeOf toRv) = Some f \<Longrightarrow>
   runConvFuncs m toRv fromRv =
     (case f fromRv of (v, Some err) \<Rightarrow> (True, Error err, toRv) | (v, None) \<Rightarrow> (True, NoError, v))"
  by (auto simp: registeredConv_def runConvFuncs_def split: option.splits)

lemma runConvFuncs_unregistered:
  "registeredConv m (TypeOf fromRv) (TypeOf toRv) = None \<Longrightarrow>
   runConvFuncs m toRv fromRv = (False, NoError, toRv)"
  by (auto simp: registeredConv_def runConvFuncs_def split: option.splits)

lemma registeredConv_AddConvFunc:
  "registeredConv (AddConvFunc m inType outType f) inType outType = Some f"
  by (simp add: registeredConv_def AddConvFunc_def Let_def update_conv')

text \<open>
  C1. When a conversion function \<open>f\<close> is registered for exactly the type of the source
  and the type of the destination, \<^verbatim>\<open>mapValue\<close> calls it and nothing else of steps 2
  to 9: an error of \<open>f\<close> is the result and the destination keeps its value; a value of
  \<open>f\<close> becomes the destination, on which the deferred inspection then runs. The
  equation holds for every \<open>reflect\<close> and both files, so also when the source type is
  assignable to the destination type.
\<close>

theorem conversion_precedence:
  assumes "registeredConv m (TypeOf fromRv) (TypeOf toRv) = Some f"
  shows "mapValue var R m toRv fromRv =
           (case f fromRv of
              (v, Some err) \<Rightarrow> (Error err, toRv)
            | (v, None) \<Rightarrow> runInspectFuncs m v fromRv)"
  by (simp add: mapValue.simps dispatch_def deferred_def runConvFuncs_registered [OF assms]
      split: prod.splits option.splits)

text \<open>
  A string mapped into a string, with a registered function from string to string that
  fails: the types are assignable, and the error of the function is the result.
\<close>

theorem conversion_precedence_witness:
  "AssignableTo reflectIdentical (TypeOf (str ''Shirt'')) (TypeOf (str ''''))
   \<and> mapValue DtoGo reflectIdentical
        (AddConvFunc emptyMapper stringT stringT (\<lambda>s. (str '''', Some (UserError ''Called!''))))
        (str '''') (str ''Shirt'')
      = (Error (UserError ''Called!''), str '''')"
  using conversion_precedence [of
      "AddConvFunc emptyMapper stringT stringT (\<lambda>s. (str '''', Some (UserError ''Called!'')))"
      "str ''Shirt''" "str ''''" _ DtoGo reflectIdentical]
  by (simp add: registeredConv_AddConvFunc str_def stringT_def reflectIdentical_def)

section \<open>Inspection after a successful step\<close>

text \<open>
  The inspection functions stored for a destination type and a receiver type, in the
  order \<^verbatim>\<open>AddInspectFunc\<close> appended them.
\<close>

definition inspectorsFor :: "Mapper \<Rightarrow> rtype \<Rightarrow> rtype \<Rightarrow> inspectFuncClosure list" where
  "inspectorsFor m dstT recvT =
     (case map_of (postFunc m) dstT of
        None \<Rightarrow> []
      | Some toMap \<Rightarrow> (case map_of toMap recvT of None \<Rightarrow> [] | Some funcs \<Rightarrow> funcs))"

lemma inspectEach_append:
  "inspectEach (fs @ gs) d s =
     (case inspectEach fs d s of
        (NoError, d1) \<Rightarrow> inspectEach gs d1 s
      | (err, d1) \<Rightarrow> (err, d1))"
  by (induction fs arbitrary: d) (auto split: prod.splits option.splits outcome.splits)

lemma inspectEach_never_panics: "fst (inspectEach fs d s) \<noteq> Panic"
  by (induction fs arbitrary: d) (auto split: prod.splits option.splits)

lemma runInspectFuncs_flat:
  "runInspectFuncs m d s =
     inspectEach (inspectorsFor m (TypeOf d) (TypeOf s) @ inspectorsFor m (TypeOf d) nilRecvRfType) d s"
proof (cases "map_of (postFunc m) (TypeOf d)")
  case None
  then show ?thesis by (simp add: runInspectFuncs_def inspectorsFor_def)
next
  case (Some toMap)
  have tail: "inspectRecv toMap [nilRecvRfType] d1 s
      = inspectEach (inspectorsFor m (TypeOf d) nilRecvRfType) d1 s" for d1
    using Some by (simp add: inspectorsFor_def split: option.splits prod.splits outcome.splits)
  show ?thesis
  proof (cases "map_of toMap (TypeOf s)")
    case None
    with Some tail show ?thesis by (simp add: runInspectFuncs_def inspectorsFor_def)
  next
    case funcs: (Some funcs)
    with Some tail show ?thesis
      by (simp add: runInspectFuncs_def inspectorsFor_def inspectEach_append
          split: prod.splits outcome.splits)
  qed
qed

lemma inspectorsFor_AddInspectFunc:
  "inspectorsFor (AddInspectFunc m inType fromType f) inType fromType
     = inspectorsFor m inType fromType @ [f]"
  by (simp add: inspectorsFor_def AddInspectFunc_def Let_def update_conv' split: option.splits)

text \<open>
  C3. (1) \<^verbatim>\<open>mapValue\<close> is its body followed by the deferred call: when the body
  ends with no error, \<^verbatim>\<open>runInspectFuncs\<close> runs on the destination as the body left
  it; when the body ends with an error (or a panic) that is the result and no inspection
  function runs. (2) \<^verbatim>\<open>runInspectFuncs\<close> runs, one after the other, the functions
  stored for the destination's type under the exact type of the source and then those
  stored under \<^verbatim>\<open>nilRecvRfType\<close>. (3) Within a group the order is that of
  registration: \<^verbatim>\<open>AddInspectFunc\<close> appends. (4) Each function gets the destination
  as its predecessors left it, and the first error ends the run: the functions after it
  are not called and that error is the result.
\<close>

theorem inspection_after_success:
  "mapValue var R m toRv fromRv =
     (case dispatch var R m (mapValue var R m) toRv fromRv of
        (NoError, d) \<Rightarrow> runInspectFuncs m d fromRv
      | (err, d) \<Rightarrow> (err, d))
   \<and> runInspectFuncs m d fromRv =
       inspectEach (inspectorsFor m (TypeOf d) (TypeOf fromRv)
                    @ inspectorsFor m (TypeOf d) nilRecvRfType) d fromRv
   \<and> inspectorsFor (AddInspectFunc m inType fromType f) inType fromType
       = inspectorsFor m inType fromType @ [f]
   \<and> (inspectEach fs d fromRv = (NoError, d1) \<longrightarrow>
        inspectEach (fs @ g # gs) d fromRv =
          (case g d1 fromRv of
             (d2, Some err) \<Rightarrow> (Error err, d2)
           | (d2, None) \<Rightarrow> inspectEach gs d2 fromRv))"
proof (intro conjI impI)
  show "mapValue var R m toRv fromRv =
     (case dispatch var R m (mapValue var R m) toRv fromRv of
        (NoError, d) \<Rightarrow> runInspectFuncs m d fromRv
      | (err, d) \<Rightarrow> (err, d))"
    by (simp add: mapValue.simps deferred_def split: prod.splits outcome.splits)
  show "runInspectFuncs m d fromRv =
       inspectEach (inspectorsFor m (TypeOf d) (TypeOf fromRv)
                    @ inspectorsFor m (TypeOf d) nilRecvRfType) d fromRv"
    by (rule runInspectFuncs_flat)
  show "inspectorsFor (AddInspectFunc m inType fromType f) inType fromType
       = inspectorsFor m inType fromType @ [f]"
    by (rule inspectorsFor_AddInspectFunc)
  assume "inspectEach fs d fromRv = (NoError, d1)"
  then show "inspectEach (fs @ g # gs) d fromRv =
          (case g d1 fromRv of
             (d2, Some err) \<Rightarrow> (Error err, d2)
           | (d2, None) \<Rightarrow> inspectEach gs d2 fromRv)"
    by (simp add: inspectEach_append)
qed

text \<open>
  Three functions on a string destination, registered in the order \<open>A\<close> (no receiver),
  \<open>B\<close> (receiver string), failing (no receiver): \<open>B\<close> runs first, then \<open>A\<close>, then
  the error of the third is the result.
\<close>

definition appendStr :: "string \<Rightarrow> inspectFuncClosure" where
  "appendStr c = (\<lambda>d s. (case d of VBasic n p (LStr t) \<Rightarrow> VBasic n p (LStr (t @ c)) | _ \<Rightarrow> d, None))"

definition failWith :: "string \<Rightarrow> inspectFuncClosure" where
  "failWith c = (\<lambda>d s. (d, Some (UserError c)))"

definition inspectingMapper :: Mapper where
  "inspectingMapper =
     AddInspectFunc
       (AddInspectFunc
          (AddInspectFunc emptyMapper stringT nilRecvRfType (appendStr ''A''))
          stringT stringT (appendStr ''B''))
       stringT nilRecvRfType (failWith ''Test error'')"

lemma inspectingMapper_funcs:
  "inspectorsFor inspectingMapper stringT stringT = [appendStr ''B'']"
  "inspectorsFor inspectingMapper stringT nilRecvRfType = [appendStr ''A'', failWith ''Test error'']"
  by (simp_all add: inspectingMapper_def inspectorsFor_def AddInspectFunc_def emptyMapper_def
      stringT_def nilRecvRfType_def Let_def)

lemma inspectingMapper_dispatch:
  "dispatch DtoGo reflectIdentical inspectingMapper mv (str []) (str ''x'') = (NoError, str ''x'')"
  by (simp add: dispatch_def runConvFuncs_def inspectingMapper_def AddInspectFunc_def
      emptyMapper_def Let_def str_def directAllowed_def reflectIdentical_def)

theorem inspection_after_success_witness:
  "mapValue DtoGo reflectIdentical inspectingMapper (str []) (str ''x'')
     = (Error (UserError ''Test error''), str ''xBA'')"
proof -
  have t: "TypeOf (str s) = stringT" for s
    by (simp add: str_def stringT_def)
  from inspection_after_success [of DtoGo reflectIdentical inspectingMapper "str []" "str ''x''"
      "str ''x''"]
  have "mapValue DtoGo reflectIdentical inspectingMapper (str []) (str ''x'')
      = inspectEach [appendStr ''B'', appendStr ''A'', failWith ''Test error''] (str ''x'') (str ''x'')"
    by (simp add: inspectingMapper_dispatch inspectingMapper_funcs t)
  then show ?thesis
    by (simp add: appendStr_def failWith_def str_def)
qed

section \<open>Sequence to sequence\<close>

text \<open>
  \<^verbatim>\<open>mapSlice\<close> first replaces the destination by \<^verbatim>\<open>MakeSlice\<close> of the source's
  length, all elements zero, and then maps the elements in place from index 0 upwards.
\<close>

lemma mapAt_fresh:
  "mapAt mv (VSlice et (pre @ z # later)) (length pre) x =
     (fst (mv z x), VSlice et (pre @ snd (mv z x) # later))"
  by (simp add: mapAt_def split: prod.splits)

lemma mapSliceFrom_all_ok:
  "\<forall>x \<in> set xs. fst (mv z x) = NoError \<Longrightarrow>
   mapSliceFrom mv (VSlice et (pre @ replicate (length xs) z)) (length pre) xs
     = (NoError, VSlice et (pre @ map (\<lambda>x. snd (mv z x)) xs))"
proof (induction xs arbitrary: pre)
  case Nil
  show ?case by simp
next
  case (Cons x xs)
  from Cons.prems have ok: "fst (mv z x) = NoError" and rest: "\<forall>y \<in> set xs. fst (mv z y) = NoError"
    by simp_all
  have "mapSliceFrom mv (VSlice et (pre @ replicate (length (x # xs)) z)) (length pre) (x # xs)
      = mapSliceFrom mv (VSlice et ((pre @ [snd (mv z x)]) @ replicate (length xs) z))
          (length (pre @ [snd (mv z x)])) xs"
    using ok mapAt_fresh [of mv et pre z "replicate (length xs) z" x] by simp
  also have "\<dots> = (NoError, VSlice et ((pre @ [snd (mv z x)]) @ map (\<lambda>x. snd (mv z x)) xs))"
    by (rule Cons.IH [OF rest])
  finally show ?case by simp
qed

lemma mapSliceFrom_first_error:
  "\<forall>x \<in> set ok. fst (mv z x) = NoError \<Longrightarrow> fst (mv z bad) \<noteq> NoError \<Longrightarrow>
   mapSliceFrom mv (VSlice et (pre @ replicate (length (ok @ bad # rest)) z)) (length pre)
       (ok @ bad # rest)
     = (fst (mv z bad),
        VSlice et (pre @ map (\<lambda>x. snd (mv z x)) ok @ snd (mv z bad) # replicate (length rest) z))"
proof (induction ok arbitrary: pre)
  case Nil
  from Nil.prems(2) mapAt_fresh [of mv et pre z "replicate (length rest) z" bad]
  show ?case by (cases "fst (mv z bad)") simp_all
next
  case (Cons x ok)
  from Cons.prems have ok: "fst (mv z x) = NoError" and rest: "\<forall>y \<in> set ok. fst (mv z y) = NoError"
    by simp_all
  have "mapSliceFrom mv (VSlice et (pre @ replicate (length ((x # ok) @ bad # rest)) z))
          (length pre) ((x # ok) @ bad # rest)
      = mapSliceFrom mv (VSlice et ((pre @ [snd (mv z x)]) @ replicate (length (ok @ bad # rest)) z))
          (length (pre @ [snd (mv z x)])) (ok @ bad # rest)"
    using ok mapAt_fresh [of mv et pre z "replicate (length (ok @ bad # rest)) z" x] by simp
  also have "\<dots> = (fst (mv z bad),
        VSlice et ((pre @ [snd (mv z x)]) @ map (\<lambda>x. snd (mv z x)) ok
                   @ snd (mv z bad) # replicate (length rest) z))"
    by (rule Cons.IH [OF rest Cons.prems(2)])
  finally show ?case by simp
qed

lemma mapSlice_all_ok:
  assumes "\<forall>x \<in> set xs. fst (mv (zero (ElemT (TypeOf toRv))) x) = NoError"
  shows "mapSlice mv toRv (VSlice e xs)
     = (NoError, VSlice (ElemT (TypeOf toRv)) (map (\<lambda>x. snd (mv (zero (ElemT (TypeOf toRv))) x)) xs))"
  using assms mapSliceFrom_all_ok [where mv = mv and z = "zero (ElemT (TypeOf toRv))"
      and xs = xs and et = "ElemT (TypeOf toRv)" and pre = "[]"]
  by (simp add: mapSlice_def MakeSlice_def)

lemma mapSlice_first_error:
  assumes "i < length xs"
    and "\<forall>j < i. fst (mv (zero (ElemT (TypeOf toRv))) (xs ! j)) = NoError"
    and "fst (mv (zero (ElemT (TypeOf toRv))) (xs ! i)) \<noteq> NoError"
  shows "mapSlice mv toRv (VSlice e xs)
     = (fst (mv (zero (ElemT (TypeOf toRv))) (xs ! i)),
        VSlice (ElemT (TypeOf toRv))
          (map (\<lambda>x. snd (mv (zero (ElemT (TypeOf toRv))) x)) (take i xs)
           @ snd (mv (zero (ElemT (TypeOf toRv))) (xs ! i))
           # replicate (length xs - i - 1) (zero (ElemT (TypeOf toRv)))))"
proof -
  let ?z = "zero (ElemT (TypeOf toRv))"
  from assms(1) have split: "xs = take i xs @ xs ! i # drop (Suc i) xs"
    by (simp add: id_take_nth_drop)
  have ok: "\<forall>x \<in> set (take i xs). fst (mv ?z x) = NoError"
  proof
    fix x assume "x \<in> set (take i xs)"
    then obtain j where "j < length (take i xs)" and "x = take i xs ! j"
      by (auto simp: in_set_conv_nth)
    with assms(1,2) show "fst (mv ?z x) = NoError" by simp
  qed
  have len: "length (drop (Suc i) xs) = length xs - i - 1" by simp
  note run = mapSliceFrom_first_error [where mv = mv and z = ?z and ok = "take i xs"
      and bad = "xs ! i" and rest = "drop (Suc i) xs" and et = "ElemT (TypeOf toRv)"
      and pre = "[]", OF ok assms(3)]
  from run show ?thesis
    unfolding mapSlice_def MakeSlice_def split [symmetric] len by simp
qed

lemma Len_mapAt: "Len (snd (mapAt mv toRv i x)) = Len toRv"
  by (cases toRv) (auto simp: mapAt_def split: option.splits prod.splits)

lemma Len_mapSliceFrom: "Len (snd (mapSliceFrom mv toRv i xs)) = Len toRv"
proof (induction xs arbitrary: toRv i)
  case Nil
  show ?case by simp
next
  case (Cons x xs)
  obtain err toRv' where step: "mapAt mv toRv i x = (err, toRv')" by (cases "mapAt mv toRv i x")
  with Len_mapAt [of mv toRv i x] have "Len toRv' = Len toRv" by simp
  with step Cons.IH [of toRv' "i + 1"] show ?case by (cases err) simp_all
qed

text \<open>
  What \<^verbatim>\<open>mapSlice\<close> does with one element \<open>x\<close> of the source: the recursive
  mapping of \<open>x\<close> into a zero value of the destination's element type.
\<close>

definition mapElem :: "variant \<Rightarrow> reflect \<Rightarrow> Mapper \<Rightarrow> val \<Rightarrow> val \<Rightarrow> outcome \<times> val" where
  "mapElem var R m toRv x = mapValue var R m (zero (ElemT (TypeOf toRv))) x"

text \<open>
  C7. Mapping the slice \<open>xs\<close> of length \<open>N\<close> with \<^verbatim>\<open>mapSlice\<close> leaves a
  destination of length \<open>N\<close>, whatever it held before. When no element fails, the
  destination is the new slice whose element at each position is the recursive mapping
  of the source's element at that position. When some element fails, the error returned
  is that of the failing element with the least index: the elements are mapped in
  increasing order and the first error ends the loop.
\<close>

theorem slice_elementwise:
  "Len (snd (mapSlice (mapValue var R m) toRv (VSlice e xs))) = length xs
   \<and> ((\<forall>x \<in> set xs. fst (mapElem var R m toRv x) = NoError) \<longrightarrow>
        mapSlice (mapValue var R m) toRv (VSlice e xs)
          = (NoError, VSlice (ElemT (TypeOf toRv)) (map (\<lambda>x. snd (mapElem var R m toRv x)) xs)))
   \<and> (i < length xs \<and> (\<forall>j < i. fst (mapElem var R m toRv (xs ! j)) = NoError)
        \<and> fst (mapElem var R m toRv (xs ! i)) \<noteq> NoError \<longrightarrow>
        fst (mapSlice (mapValue var R m) toRv (VSlice e xs)) = fst (mapElem var R m toRv (xs ! i)))"
proof (intro conjI impI)
  show "Len (snd (mapSlice (mapValue var R m) toRv (VSlice e xs))) = length xs"
    by (simp add: mapSlice_def Len_mapSliceFrom MakeSlice_def)
next
  assume "\<forall>x \<in> set xs. fst (mapElem var R m toRv x) = NoError"
  then show "mapSlice (mapValue var R m) toRv (VSlice e xs)
          = (NoError, VSlice (ElemT (TypeOf toRv)) (map (\<lambda>x. snd (mapElem var R m toRv x)) xs))"
    unfolding mapElem_def by (rule mapSlice_all_ok)
next
  assume "i < length xs \<and> (\<forall>j < i. fst (mapElem var R m toRv (xs ! j)) = NoError)
        \<and> fst (mapElem var R m toRv (xs ! i)) \<noteq> NoError"
  then show "fst (mapSlice (mapValue var R m) toRv (VSlice e xs)) = fst (mapElem var R m toRv (xs ! i))"
    unfolding mapElem_def using mapSlice_first_error [of i xs "mapValue var R m" toRv e] by simp
qed

text \<open>The definitions that evaluate a run on given arguments.\<close>

lemmas run_defs =
  mapValue.simps dispatch_def deferred_def runConvFuncs_def runInspectFuncs_def directAllowed_def
  HasCustomFuncs_def mapStructs_def mapSlice_def mapMap_def mapMapToSlice_def
  mapMapSlicesToSlice_def mapAt_def MakeSlice_def MakeMapWithSize_def New_def Let_def
  ignoredField_def Lookup_def structTag_def AddConvFunc_def AddInspectFunc_def
  emptyMapper_def reflectIdentical_def stringT_def intT_def str_def nilRecvRfType_def

text \<open>
  \<^verbatim>\<open>[]Product\<close> into \<^verbatim>\<open>[]struct{Name string}\<close> as in \<^verbatim>\<open>TestSlice\<close>, and
  into \<^verbatim>\<open>[]int\<close>, where the first element already fails.
\<close>

definition productT :: rtype where
  "productT = StructT ''Product''
     [StructField ''Name'' stringT False [], StructField ''Country'' stringT False []]"

definition product :: "string \<Rightarrow> string \<Rightarrow> val" where
  "product name country = VStruct ''Product''
     [(StructField ''Name'' stringT False [], str name),
      (StructField ''Country'' stringT False [], str country)]"

definition nameOnlyT :: rtype where
  "nameOnlyT = StructT [] [StructField ''Name'' stringT False []]"

definition nameOnly :: "string \<Rightarrow> val" where
  "nameOnly name = VStruct [] [(StructField ''Name'' stringT False [], str name)]"

lemma mapElem_product:
  "mapElem DtoGo reflectIdentical emptyMapper (VSlice nameOnlyT []) (product n c)
     = (NoError, nameOnly n)"
  by (simp add: mapElem_def run_defs product_def nameOnly_def nameOnlyT_def)

lemma mapElem_product_int:
  "mapElem DtoGo reflectIdentical emptyMapper (VSlice intT []) (product n c)
     = (Error (ErrNoValidMapping intT productT), zero intT)"
  by (simp add: mapElem_def run_defs product_def productT_def)

theorem slice_elementwise_witness:
  "mapSlice (mapValue DtoGo reflectIdentical emptyMapper) (VSlice nameOnlyT [])
       (VSlice productT [product ''Shirt'' ''US'', product ''Shoes'' ''UK''])
     = (NoError, VSlice nameOnlyT [nameOnly ''Shirt'', nameOnly ''Shoes''])
   \<and> fst (mapSlice (mapValue DtoGo reflectIdentical emptyMapper) (VSlice intT [])
       (VSlice productT [product ''Shirt'' ''US'', product ''Shoes'' ''UK'']))
     = Error (ErrNoValidMapping intT productT)"
  using slice_elementwise [of DtoGo reflectIdentical emptyMapper "VSlice nameOnlyT []" productT
      "[product ''Shirt'' ''US'', product ''Shoes'' ''UK'']" 0]
    slice_elementwise [of DtoGo reflectIdentical emptyMapper "VSlice intT []" productT
      "[product ''Shirt'' ''US'', product ''Shoes'' ''UK'']" 0]
  by (simp add: mapElem_product mapElem_product_int)

section \<open>No rollback on error\<close>

text \<open>
  A mapper with one inspection function for strings that always fails, as in
  \<^verbatim>\<open>TestErrorPropagation\<close>.
\<close>

definition failingMapper :: Mapper where
  "failingMapper = AddInspectFunc emptyMapper stringT nilRecvRfType (failWith ''Test error'')"

text \<open>
  C10, as amended. When the element at index \<open>i\<close> is the first to fail,
  \<^verbatim>\<open>mapSlice\<close> returns its error and leaves the destination replaced by a new slice
  of the source's length: the elements before \<open>i\<close> hold their mapped values, the
  element at \<open>i\<close> holds whatever its failed mapping left in it, and the elements
  after \<open>i\<close> hold zero values. What the destination held before is gone.
\<close>

theorem slice_error_keeps_failed_element:
  "i < length xs \<and> (\<forall>j < i. fst (mapElem var R m toRv (xs ! j)) = NoError)
     \<and> fst (mapElem var R m toRv (xs ! i)) \<noteq> NoError \<longrightarrow>
   mapSlice (mapValue var R m) toRv (VSlice e xs)
     = (fst (mapElem var R m toRv (xs ! i)),
        VSlice (ElemT (TypeOf toRv))
          (map (\<lambda>x. snd (mapElem var R m toRv x)) (take i xs)
           @ snd (mapElem var R m toRv (xs ! i))
           # replicate (length xs - i - 1) (zero (ElemT (TypeOf toRv)))))"
  unfolding mapElem_def using mapSlice_first_error [of i xs "mapValue var R m" toRv e] by blast

lemma mapElem_failing:
  "mapElem DtoGo reflectIdentical failingMapper (VSlice stringT old) (str s)
     = (Error (UserError ''Test error''), str s)"
  by (simp add: mapElem_def run_defs failingMapper_def failWith_def)

theorem slice_error_keeps_failed_element_witness:
  "mapSlice (mapValue DtoGo reflectIdentical failingMapper) (VSlice stringT [str ''old''])
       (VSlice stringT [str ''Shirt'', str ''Shoes''])
     = (Error (UserError ''Test error''), VSlice stringT [str ''Shirt'', str []])"
  using slice_error_keeps_failed_element [of 0 "[str ''Shirt'', str ''Shoes'']" DtoGo
      reflectIdentical failingMapper "VSlice stringT [str ''old'']" stringT]
  by (simp add: mapElem_failing) (simp add: stringT_def str_def)

text \<open>
  C10 as stated fails: it puts the element at \<open>i\<close> among those that hold zero values.
  Two strings are mapped with \<open>failingMapper\<close>; the first element is assigned and then
  its inspection fails, so the element at index 0, the failing one, holds
  \<^verbatim>\<open>"Shirt"\<close> and not the zero value.
\<close>

theorem slice_error_element_not_zero:
  "mapValue DtoGo reflectIdentical failingMapper (VSlice stringT [str ''old''])
       (VSlice stringT [str ''Shirt'', str ''Shoes''])
     = (Error (UserError ''Test error''), VSlice stringT [str ''Shirt'', str []])
   \<and> Index (VSlice stringT [str ''Shirt'', str []]) 0 \<noteq> Some (zero stringT)"
  by (simp add: run_defs failingMapper_def failWith_def)

section \<open>No valid mapping\<close>

text \<open>
  \<^verbatim>\<open>errors.Is(err, target)\<close> for a target that is a comparable struct: the error is
  the target. (An error of a caller's function that wraps another error is not modelled.)
\<close>

definition Is :: "outcome \<Rightarrow> error \<Rightarrow> bool" where
  "Is err target = (err = Error target)"

text \<open>
  C8. With no conversion function registered from \<^verbatim>\<open>string\<close> to \<^verbatim>\<open>int\<close>,
  mapping a string into an int fails with \<^verbatim>\<open>ErrNoValidMapping\<close>, whose
  \<^verbatim>\<open>ToType\<close> is \<^verbatim>\<open>int\<close> and whose \<^verbatim>\<open>FromType\<close> is \<^verbatim>\<open>string\<close>; the
  destination keeps its value, and \<^verbatim>\<open>errors.Is\<close> matches the error against the same
  pair. The two hypotheses on \<open>R\<close> are facts of Go: a string is neither assignable nor
  convertible to an int.
\<close>

theorem no_valid_mapping_string_int:
  assumes "TypeOf toRv = intT" and "TypeOf fromRv = stringT"
    and "registeredConv m stringT intT = None"
    and "\<not> AssignableTo R stringT intT" and "\<not> ConvertibleTo R stringT intT"
  shows "mapValue var R m toRv fromRv = (Error (ErrNoValidMapping intT stringT), toRv)
     \<and> ToType (ErrNoValidMapping intT stringT) = intT
     \<and> FromType (ErrNoValidMapping intT stringT) = stringT
     \<and> Is (fst (mapValue var R m toRv fromRv)) (ErrNoValidMapping intT stringT)"
proof -
  from assms(1-3) have conv: "runConvFuncs m toRv fromRv = (False, NoError, toRv)"
    by (simp add: runConvFuncs_unregistered)
  have kinds: "Kind intT = KInt" "Kind stringT = KString"
    by (simp_all add: intT_def stringT_def)
  have "dispatch var R m (mapValue var R m) toRv fromRv
      = (Error (ErrNoValidMapping intT stringT), toRv)"
    using assms(4,5) by (simp add: dispatch_def Let_def conv kinds assms(1,2))
  then show ?thesis
    by (simp add: mapValue.simps deferred_def Is_def)
qed

text \<open>
  The string \<^verbatim>\<open>"Shirt"\<close> into an int, and, as in \<^verbatim>\<open>TestErrorNoValidMapping\<close>,
  a product into \<^verbatim>\<open>struct{Name int}\<close>.
\<close>

theorem no_valid_mapping_string_int_witness:
  "mapValue DtoGo reflectIdentical emptyMapper (zero intT) (str ''Shirt'')
     = (Error (ErrNoValidMapping intT stringT), zero intT)
   \<and> Is (fst (mapValue DtoGo reflectIdentical emptyMapper (zero intT) (str ''Shirt'')))
        (ErrNoValidMapping intT stringT)
   \<and> fst (mapValue DtoGo reflectIdentical emptyMapper
        (zero (StructT [] [StructField ''Name'' intT False []])) (product ''Shirt'' ''US''))
     = Error (ErrNoValidMapping intT stringT)"
proof -
  have "registeredConv emptyMapper stringT intT = None"
    by (simp add: registeredConv_def emptyMapper_def)
  moreover have "\<not> AssignableTo reflectIdentical stringT intT"
    and "\<not> ConvertibleTo reflectIdentical stringT intT"
    by (simp_all add: reflectIdentical_def stringT_def intT_def)
  moreover have "TypeOf (zero intT) = intT" and "TypeOf (str ''Shirt'') = stringT"
    by (simp_all add: intT_def stringT_def str_def)
  ultimately have "mapValue DtoGo reflectIdentical emptyMapper (zero intT) (str ''Shirt'')
       = (Error (ErrNoValidMapping intT stringT), zero intT)
     \<and> Is (fst (mapValue DtoGo reflectIdentical emptyMapper (zero intT) (str ''Shirt'')))
        (ErrNoValidMapping intT stringT)"
    using no_valid_mapping_string_int [of "zero intT" "str ''Shirt''" emptyMapper reflectIdentical DtoGo]
    by blast
  moreover have "fst (mapValue DtoGo reflectIdentical emptyMapper
        (zero (StructT [] [StructField ''Name'' intT False []])) (product ''Shirt'' ''US''))
     = Error (ErrNoValidMapping intT stringT)"
    by (simp add: run_defs product_def)
  ultimately show ?thesis by (simp add: Is_def)
qed

section \<open>The kind rules\<close>

text \<open>
  When no conversion function is registered for the pair and neither direct assignment
  nor conversion applies, the dispatcher is at step 4.
\<close>

lemma dispatch_after_step3:
  assumes "registeredConv m (TypeOf fromRv) (TypeOf toRv) = None"
    and "\<not> (directAllowed var m (Kind (TypeOf fromRv)) \<and> AssignableTo R (TypeOf fromRv) (TypeOf toRv))"
    and "\<not> (directAllowed var m (Kind (TypeOf fromRv)) \<and> ConvertibleTo R (TypeOf fromRv) (TypeOf toRv))"
  shows "dispatch var R m mv toRv fromRv =
     (let tk = Kind (TypeOf toRv); fk = Kind (TypeOf fromRv) in
      if fk = KPtr then
        (if IsNil fromRv then (NoError, toRv)
         else (case Elem fromRv of
                 None \<Rightarrow> (Panic, toRv)
               | Some pointee \<Rightarrow> mv toRv pointee))
      else if tk = KPtr then
        (let toRv2 = (if IsNil toRv then New (ElemT (TypeOf toRv)) else toRv) in
         case Elem toRv2 of
           None \<Rightarrow> (Panic, toRv2)
         | Some d \<Rightarrow> (case mv d fromRv of (err, d') \<Rightarrow> (err, SetElem toRv2 d')))
      else if tk = KStruct \<and> fk = KStruct then mapStructs var mv toRv fromRv
      else if tk = KSlice \<and> fk = KSlice then mapSlice mv toRv fromRv
      else if tk = KMap \<and> fk = KMap then mapMap mv toRv fromRv
      else if tk = KSlice \<and> fk = KMap then
        (case mapMapToSlice mv toRv fromRv of (err, toRv3) \<Rightarrow>
           if err = Panic then (Panic, toRv3)
           else if AsErrNoValidMapping err \<and> Kind (ElemT (TypeOf fromRv)) = KSlice then
             (case mapMapSlicesToSlice mv toRv3 fromRv of (errFlatten, toRv4) \<Rightarrow>
                if errFlatten = NoError then (NoError, toRv4)
                else if errFlatten = Panic then (Panic, toRv4)
                else (err, toRv4))
           else (err, toRv3))
      else (Error (ErrNoValidMapping (TypeOf toRv) (TypeOf fromRv)), toRv))"
  using assms(2,3) unfolding dispatch_def runConvFuncs_unregistered [OF assms(1)] Let_def
  by (simp only: prod.case if_False split: if_splits)

lemma primKind_basic: "primKind p \<noteq> KPtr" "\<not> isCompositeKind (primKind p)"
  by (cases p; simp)+

lemma pointer_kind: "Kind (TypeOf v) = KPtr \<Longrightarrow> \<exists>e p. v = VPtr e p"
  by (cases v) (simp_all add: primKind_basic)

lemma IsNil_pointer: "Kind (TypeOf v) = KPtr \<Longrightarrow> IsNil v = (Elem v = None)"
  by (auto dest!: pointer_kind elim: IsNil.elims)

text \<open>
  C5, as amended. For a source of pointer kind, when no conversion function is
  registered for the pair of types and the pointer type is neither assignable nor
  convertible to the destination's type: a nil source ends the body with no error and
  the destination as it was, after which the inspection functions of the destination's
  type run as after every successful body; a source that points to a value makes the
  body the recursive call with the pointee as source and the same destination.
\<close>

theorem pointer_source:
  assumes "Kind (TypeOf fromRv) = KPtr"
    and "registeredConv m (TypeOf fromRv) (TypeOf toRv) = None"
    and "\<not> AssignableTo R (TypeOf fromRv) (TypeOf toRv)"
    and "\<not> ConvertibleTo R (TypeOf fromRv) (TypeOf toRv)"
  shows "(IsNil fromRv \<longrightarrow>
            dispatch var R m (mapValue var R m) toRv fromRv = (NoError, toRv)
            \<and> mapValue var R m toRv fromRv = runInspectFuncs m toRv fromRv)
     \<and> (\<forall>pointee. Elem fromRv = Some pointee \<longrightarrow>
            dispatch var R m (mapValue var R m) toRv fromRv = mapValue var R m toRv pointee)"
proof -
  have body: "dispatch var R m mv toRv fromRv =
      (case Elem fromRv of None \<Rightarrow> (NoError, toRv) | Some pointee \<Rightarrow> mv toRv pointee)" for mv
    using assms(3,4)
    by (simp add: dispatch_after_step3 [OF assms(2)] assms(1) IsNil_pointer [OF assms(1)]
        split: option.splits)
  show ?thesis
    by (simp add: body IsNil_pointer [OF assms(1)] mapValue.simps [of var R m toRv fromRv] deferred_def)
qed

text \<open>
  A nil \<^verbatim>\<open>*Product\<close> into a product leaves it alone; a \<^verbatim>\<open>*Product\<close> that points
  to a product is mapped into \<^verbatim>\<open>struct{Name string}\<close> through its pointee
  (\<^verbatim>\<open>TestPointerCases\<close>, \<^verbatim>\<open>TestPointerDeref\<close>).
\<close>

definition five :: val where
  "five = VBasic ''int'' PInt (LInt 5)"

theorem pointer_source_witness:
  "mapValue DtoGo reflectIdentical emptyMapper (product ''Old'' ''XX'') (VPtr productT None)
     = (NoError, product ''Old'' ''XX'')
   \<and> dispatch DtoGo reflectIdentical emptyMapper (mapValue DtoGo reflectIdentical emptyMapper)
        (nameOnly ''Old'') (VPtr productT (Some (product ''Shirt'' ''US'')))
     = (NoError, nameOnly ''Shirt'')"
proof -
  have t: "TypeOf (product n c) = productT" "TypeOf (nameOnly n) = nameOnlyT" for n c
    by (simp_all add: product_def productT_def nameOnly_def nameOnlyT_def)
  have no: "registeredConv emptyMapper a b = None" for a b
    by (simp add: registeredConv_def emptyMapper_def)
  have differ: "\<not> AssignableTo reflectIdentical (PtrT productT) t"
      "\<not> ConvertibleTo reflectIdentical (PtrT productT) t" if "t = productT \<or> t = nameOnlyT" for t
    using that by (auto simp: productT_def nameOnlyT_def reflectIdentical_def)
  have inner: "mapValue DtoGo reflectIdentical emptyMapper (nameOnly ''Old'') (product ''Shirt'' ''US'')
      = (NoError, nameOnly ''Shirt'')"
    by (simp add: run_defs product_def nameOnly_def)
  from pointer_source [of "VPtr productT None" emptyMapper "product ''Old'' ''XX''"
      reflectIdentical DtoGo]
  have "mapValue DtoGo reflectIdentical emptyMapper (product ''Old'' ''XX'') (VPtr productT None)
     = (NoError, product ''Old'' ''XX'')"
    by (simp add: t no differ) (simp add: runInspectFuncs_def emptyMapper_def)
  moreover from pointer_source [of "VPtr productT (Some (product ''Shirt'' ''US''))" emptyMapper
      "nameOnly ''Old''" reflectIdentical DtoGo]
  have "dispatch DtoGo reflectIdentical emptyMapper (mapValue DtoGo reflectIdentical emptyMapper)
        (nameOnly ''Old'') (VPtr productT (Some (product ''Shirt'' ''US'')))
     = (NoError, nameOnly ''Shirt'')"
    by (simp add: t no differ inner)
  ultimately show ?thesis by simp
qed

text \<open>
  C5 as stated fails: a nil \<^verbatim>\<open>*int\<close> mapped into a \<^verbatim>\<open>*int\<close> that points to 5 is
  assigned at step 2, since the types are identical, and the destination becomes nil.
\<close>

theorem nil_pointer_overwrites_destination:
  "mapValue DtoGo reflectIdentical emptyMapper (VPtr intT (Some five)) (VPtr intT None)
     = (NoError, VPtr intT None)
   \<and> VPtr intT None \<noteq> VPtr intT (Some five)"
  by (simp add: run_defs)

section \<open>Map to sequence, and the flatten fallback\<close>

lemma Len_flattenInner: "Len (snd (fst (flattenInner mv toRv i xs))) = Len toRv"
proof (induction xs arbitrary: toRv i)
  case Nil
  show ?case by simp
next
  case (Cons x xs)
  obtain err toRv' where step: "mapAt mv toRv i x = (err, toRv')" by (cases "mapAt mv toRv i x")
  with Len_mapAt [of mv toRv i x] have "Len toRv' = Len toRv" by simp
  with step Cons.IH [of toRv' "i + 1"] show ?case by (cases err) simp_all
qed

lemma Len_flattenOuter: "Len (snd (flattenOuter mv toRv i kvs)) = Len toRv"
proof (induction kvs arbitrary: toRv i)
  case Nil
  show ?case by simp
next
  case (Cons kv kvs)
  obtain k v where kv: "kv = (k, v)" by (cases kv)
  obtain err toRv' i' where step: "flattenInner mv toRv i (Elems v) = ((err, toRv'), i')"
    by (metis surj_pair)
  with Len_flattenInner [of mv toRv i "Elems v"] have "Len toRv' = Len toRv" by simp
  with step Cons.IH [of toRv' i'] show ?case by (cases err) (simp_all add: kv)
qed

lemma Len_mapMapSlicesToSlice:
  "Len (snd (mapMapSlicesToSlice mv toRv fromRv)) = sumLen (MapRange fromRv)"
  by (simp add: mapMapSlicesToSlice_def Len_flattenOuter MakeSlice_def)

text \<open>
  C4. The destination is a slice and the source a map, no conversion function is
  registered for the pair, and the map type is neither assignable nor convertible to the
  slice type (as always in Go). \<^verbatim>\<open>mapMapToSlice\<close> runs first and ends with \<open>err\<close>.
  (1) Unless \<open>err\<close> is an \<^verbatim>\<open>ErrNoValidMapping\<close> and the values of the map are
  slices, its outcome is the outcome of the body. (2) Otherwise
  \<^verbatim>\<open>mapMapSlicesToSlice\<close> runs; when it ends with no error the body ends with no
  error and its destination, whose length is the sum of the lengths of the map's values.
  (3) When it ends with an error of its own, the body returns \<open>err\<close>, the error of the
  first attempt.
\<close>

theorem map_to_slice_fallback:
  assumes "Kind (TypeOf toRv) = KSlice" and "Kind (TypeOf fromRv) = KMap"
    and "registeredConv m (TypeOf fromRv) (TypeOf toRv) = None"
    and "\<not> AssignableTo R (TypeOf fromRv) (TypeOf toRv)"
    and "\<not> ConvertibleTo R (TypeOf fromRv) (TypeOf toRv)"
    and "mapMapToSlice (mapValue var R m) toRv fromRv = (err, toRv3)"
    and "mapMapSlicesToSlice (mapValue var R m) toRv3 fromRv = (errFlatten, toRv4)"
  shows "(\<not> (AsErrNoValidMapping err \<and> Kind (ElemT (TypeOf fromRv)) = KSlice) \<longrightarrow>
            dispatch var R m (mapValue var R m) toRv fromRv = (err, toRv3))
     \<and> (AsErrNoValidMapping err \<and> Kind (ElemT (TypeOf fromRv)) = KSlice \<and> errFlatten = NoError \<longrightarrow>
            dispatch var R m (mapValue var R m) toRv fromRv = (NoError, toRv4)
            \<and> Len toRv4 = sumLen (MapRange fromRv))
     \<and> (AsErrNoValidMapping err \<and> Kind (ElemT (TypeOf fromRv)) = KSlice
          \<and> errFlatten \<noteq> NoError \<and> errFlatten \<noteq> Panic \<longrightarrow>
            dispatch var R m (mapValue var R m) toRv fromRv = (err, toRv4))"
proof -
  have body: "dispatch var R m (mapValue var R m) toRv fromRv =
      (if err = Panic then (Panic, toRv3)
       else if AsErrNoValidMapping err \<and> Kind (ElemT (TypeOf fromRv)) = KSlice then
         (if errFlatten = NoError then (NoError, toRv4)
          else if errFlatten = Panic then (Panic, toRv4)
          else (err, toRv4))
       else (err, toRv3))"
    using assms(4,5) by (simp add: dispatch_after_step3 [OF assms(3)] assms(1,2,6,7))
  have len: "Len toRv4 = sumLen (MapRange fromRv)"
    using Len_mapMapSlicesToSlice [of "mapValue var R m" toRv3 fromRv] assms(7) by simp
  have panic: "\<not> AsErrNoValidMapping Panic" by simp
  show ?thesis
    unfolding body using len panic by auto
qed

text \<open>
  \<^verbatim>\<open>map[string][]Product\<close> into \<^verbatim>\<open>[]struct{Name string}\<close>, the flattening of
  \<^verbatim>\<open>TestMapSlicesToSlice\<close>, and into \<^verbatim>\<open>[]int\<close>, where both attempts fail and
  the error names the slice type of the first attempt, not the product type of the second.
\<close>

definition cartByCountries :: val where
  "cartByCountries = VMap stringT (SliceT productT)
     [(str ''Europe'', VSlice productT [product ''Shoes'' ''UK'', product ''Hat'' ''IT'']),
      (str ''America'', VSlice productT [product ''Shirt'' ''US'', product ''Bowtie'' ''US''])]"

lemma cart_first_attempt_names:
  "mapMapToSlice (mapValue DtoGo reflectIdentical emptyMapper) (VSlice nameOnlyT []) cartByCountries
     = (Error (ErrNoValidMapping nameOnlyT (SliceT productT)),
        VSlice nameOnlyT [zero nameOnlyT, zero nameOnlyT])"
  by (simp add: run_defs cartByCountries_def productT_def nameOnlyT_def product_def)

lemma cart_first_attempt_ints:
  "mapMapToSlice (mapValue DtoGo reflectIdentical emptyMapper) (VSlice intT []) cartByCountries
     = (Error (ErrNoValidMapping intT (SliceT productT)), VSlice intT [zero intT, zero intT])"
  by (simp add: run_defs cartByCountries_def productT_def product_def)

lemma cart_flatten_names:
  "mapMapSlicesToSlice (mapValue DtoGo reflectIdentical emptyMapper)
       (VSlice nameOnlyT [zero nameOnlyT, zero nameOnlyT]) cartByCountries
     = (NoError, VSlice nameOnlyT
          [nameOnly ''Shoes'', nameOnly ''Hat'', nameOnly ''Shirt'', nameOnly ''Bowtie''])"
  by (simp add: run_defs cartByCountries_def productT_def nameOnlyT_def product_def nameOnly_def)

lemma cart_flatten_ints:
  "mapMapSlicesToSlice (mapValue DtoGo reflectIdentical emptyMapper)
       (VSlice intT [zero intT, zero intT]) cartByCountries
     = (Error (ErrNoValidMapping intT productT),
        VSlice intT [zero intT, zero intT, zero intT, zero intT])"
  by (simp add: run_defs cartByCountries_def productT_def product_def)

theorem map_to_slice_fallback_witness:
  "dispatch DtoGo reflectIdentical emptyMapper (mapValue DtoGo reflectIdentical emptyMapper)
       (VSlice nameOnlyT []) cartByCountries
     = (NoError, VSlice nameOnlyT
          [nameOnly ''Shoes'', nameOnly ''Hat'', nameOnly ''Shirt'', nameOnly ''Bowtie''])
   \<and> dispatch DtoGo reflectIdentical emptyMapper (mapValue DtoGo reflectIdentical emptyMapper)
       (VSlice intT []) cartByCountries
     = (Error (ErrNoValidMapping intT (SliceT productT)),
        VSlice intT [zero intT, zero intT, zero intT, zero intT])"
proof -
  have kinds: "Kind (TypeOf (VSlice t [])) = KSlice" "Kind (TypeOf cartByCountries) = KMap"
      "Kind (ElemT (TypeOf cartByCountries)) = KSlice" for t
    by (simp_all add: cartByCountries_def)
  have no: "registeredConv emptyMapper a b = None" for a b
    by (simp add: registeredConv_def emptyMapper_def)
  have differ: "\<not> AssignableTo reflectIdentical (TypeOf cartByCountries) (TypeOf (VSlice t []))"
      "\<not> ConvertibleTo reflectIdentical (TypeOf cartByCountries) (TypeOf (VSlice t []))" for t
    by (simp_all add: cartByCountries_def reflectIdentical_def)
  note names = map_to_slice_fallback [where var = DtoGo and R = reflectIdentical
      and m = emptyMapper and toRv = "VSlice nameOnlyT []" and fromRv = cartByCountries,
      OF kinds(1,2) no differ cart_first_attempt_names cart_flatten_names]
  note ints = map_to_slice_fallback [where var = DtoGo and R = reflectIdentical
      and m = emptyMapper and toRv = "VSlice intT []" and fromRv = cartByCountries,
      OF kinds(1,2) no differ cart_first_attempt_ints cart_flatten_ints]
  from names ints show ?thesis by (simp add: kinds)
qed

section \<open>The guard on direct assignment and conversion\<close>

lemma directAllowed_DtoGo:
  "directAllowed DtoGo m fk = (\<not> HasCustomFuncs m \<or> \<not> isCompositeKind fk)"
  by (simp add: directAllowed_def)

lemma directAllowed_Part000: "directAllowed Part000 m fk"
  by (simp add: directAllowed_def)

text \<open>
  In \<^verbatim>\<open>dto.go\<close>, with custom functions and a composite source, the body does not
  depend on \<^verbatim>\<open>AssignableTo\<close>, \<^verbatim>\<open>ConvertibleTo\<close> or \<^verbatim>\<open>Convert\<close>: steps 2
  and 3 are skipped. Without custom functions, or with a source that is not composite,
  they are tried.
\<close>

lemma dto_go_guard_skips_direct:
  assumes "HasCustomFuncs m" and "isCompositeKind (Kind (TypeOf fromRv))"
  shows "dispatch DtoGo R m mv toRv fromRv = dispatch DtoGo R' m mv toRv fromRv"
  using assms by (simp add: dispatch_def Let_def directAllowed_DtoGo split: prod.splits)

lemma dto_go_guard_allows_direct:
  assumes "\<not> HasCustomFuncs m \<or> \<not> isCompositeKind (Kind (TypeOf fromRv))"
    and "registeredConv m (TypeOf fromRv) (TypeOf toRv) = None"
  shows "AssignableTo R (TypeOf fromRv) (TypeOf toRv) \<Longrightarrow>
           dispatch DtoGo R m mv toRv fromRv = (NoError, fromRv)"
    and "\<not> AssignableTo R (TypeOf fromRv) (TypeOf toRv) \<Longrightarrow>
         ConvertibleTo R (TypeOf fromRv) (TypeOf toRv) \<Longrightarrow>
           dispatch DtoGo R m mv toRv fromRv = (NoError, Convert R fromRv (TypeOf toRv))"
  using assms(1)
  by (simp_all add: dispatch_def Let_def directAllowed_DtoGo
      runConvFuncs_unregistered [OF assms(2)])

text \<open>The second file tries step 2 whatever the mapper holds and whatever the kind.\<close>

lemma part000_always_direct:
  assumes "registeredConv m (TypeOf fromRv) (TypeOf toRv) = None"
    and "AssignableTo R (TypeOf fromRv) (TypeOf toRv)"
  shows "dispatch Part000 R m mv toRv fromRv = (NoError, fromRv)"
  using assms(2)
  by (simp add: dispatch_def Let_def directAllowed_Part000
      runConvFuncs_unregistered [OF assms(1)])

text \<open>The mapper of \<^verbatim>\<open>TestDontSkipFunctions\<close>.\<close>

definition dontSkipMapper :: Mapper where
  "dontSkipMapper =
     AddConvFunc emptyMapper stringT stringT (\<lambda>s. (str [], Some (UserError ''Called!'')))"

text \<open>
  C2 on the input of \<^verbatim>\<open>TestDontSkipFunctions\<close>: a mapper with one conversion
  function from string to string, which fails, and a product mapped into a product. The
  mapper has custom functions and the source is a struct. \<^verbatim>\<open>dto.go\<close> walks the
  struct and returns the error of the function, as the test expects; the second file
  assigns the struct as a whole and returns no error.
\<close>

theorem part000_assigns_composite_with_custom_funcs:
  "HasCustomFuncs dontSkipMapper
   \<and> isCompositeKind (Kind (TypeOf (product ''Shirt'' ''US'')))
   \<and> mapValue Part000 reflectIdentical dontSkipMapper (zero productT) (product ''Shirt'' ''US'')
       = (NoError, product ''Shirt'' ''US'')
   \<and> mapValue DtoGo reflectIdentical dontSkipMapper (zero productT) (product ''Shirt'' ''US'')
       = (Error (UserError ''Called!''), zero productT)"
  by (simp add: run_defs dontSkipMapper_def product_def productT_def)

section \<open>Embedded fields\<close>

text \<open>
  The named fields a struct type declares, in declaration order, an anonymous field
  standing for the fields its own type declares; each with the reference that leads to
  it. As in \<^verbatim>\<open>collectStructFields\<close>, an anonymous field that is no struct has no
  fields to give (\<open>None\<close>), and the second file leaves out the fields it ignores.
\<close>

function (sequential) declaredFields ::
    "variant \<Rightarrow> fieldRef \<Rightarrow> rtype \<Rightarrow> (string \<times> fieldRef) list option"
  and declaredFrom ::
    "variant \<Rightarrow> fieldRef \<Rightarrow> rtype sfield list \<Rightarrow> nat \<Rightarrow> (string \<times> fieldRef) list option"
where
  "declaredFields var ref (StructT n fs) = declaredFrom var ref fs 0"
| "declaredFields var ref (BasicT n p) = None"
| "declaredFields var ref (PtrT e) = None"
| "declaredFields var ref (SliceT e) = None"
| "declaredFields var ref (MapT k e) = None"
| "declaredFrom var ref [] i = Some []"
| "declaredFrom var ref (f # rest) i =
     (if ignoredField var f then declaredFrom var ref rest (i + 1)
      else if Anonymous f then
        (case declaredFields var (ref @ [i]) (Type f) of
           None \<Rightarrow> None
         | Some embedded \<Rightarrow>
             map_option (\<lambda>later. embedded @ later) (declaredFrom var ref rest (i + 1)))
      else map_option (\<lambda>later. (Name f, ref @ [i]) # later) (declaredFrom var ref rest (i + 1)))"
  by pat_completeness auto
termination
proof (relation "measure (\<lambda>x. case x of
          Inl (var, ref, t) \<Rightarrow> size t
        | Inr (var, ref, fs, i) \<Rightarrow> size_list (size_sfield size) fs)")
  fix f :: "rtype sfield"
  have "size (Type f) < Suc (size_sfield size f)"
    using size_Type_field [of f] by simp
  then show "\<And>var ref rest i.
      \<not> ignoredField var f \<Longrightarrow> Anonymous f \<Longrightarrow>
      (Inl (var, ref @ [i], Type f), Inr (var, ref, f # rest, i))
      \<in> measure (\<lambda>x. case x of
          Inl (var, ref, t) \<Rightarrow> size t
        | Inr (var, ref, fs, i) \<Rightarrow> size_list (size_sfield size) fs)"
    by simp
qed simp_all

text \<open>Entering the fields into a map one after the other, a later entry replacing an earlier one of the same name.\<close>

definition mergeInto :: "structValueMap \<Rightarrow> (string \<times> fieldRef) list \<Rightarrow> structValueMap" where
  "mergeInto fieldMap new = foldl (\<lambda>acc (name, ref). AList.update name ref acc) fieldMap new"

lemma mergeInto_append: "mergeInto fieldMap (xs @ ys) = mergeInto (mergeInto fieldMap xs) ys"
  by (simp add: mergeInto_def)

lemma mergeInto_Cons:
  "mergeInto fieldMap ((name, ref) # ys) = mergeInto (AList.update name ref fieldMap) ys"
  by (simp add: mergeInto_def)

lemma mergeInto_Nil: "mergeInto fieldMap [] = fieldMap"
  by (simp add: mergeInto_def)

lemma collect_is_merge:
  "collectStructFields var ref t fieldMap
     = map_option (mergeInto fieldMap) (declaredFields var ref t)"
  "collectFrom var ref fs i fieldMap = map_option (mergeInto fieldMap) (declaredFrom var ref fs i)"
proof (induction var ref t fieldMap and var ref fs i fieldMap
    rule: collectStructFields_collectFrom.induct)
  case (7 var rfValue fieldType rest i fields)
  show ?case
  proof (cases "ignoredField var fieldType")
    case True
    with 7 show ?thesis by simp
  next
    case notIgnored: False
    show ?thesis
    proof (cases "Anonymous fieldType")
      case True
      note inner = "7.IH"(2) [OF notIgnored True]
      show ?thesis
      proof (cases "declaredFields var (rfValue @ [i]) (Type fieldType)")
        case None
        with inner notIgnored True show ?thesis by simp
      next
        case (Some embedded)
        with inner have c: "collectStructFields var (rfValue @ [i]) (Type fieldType) fields
            = Some (mergeInto fields embedded)" by simp
        from "7.IH"(3) [OF notIgnored True c] notIgnored True c Some show ?thesis
          by (simp add: option.map_comp comp_def mergeInto_append)
      qed
    next
      case False
      from "7.IH"(4) [OF notIgnored False] notIgnored False show ?thesis
        by (simp add: option.map_comp comp_def mergeInto_Cons)
    qed
  qed
qed (simp_all add: mergeInto_Nil)

lemma map_of_mergeInto: "map_of (mergeInto fieldMap new) = map_of fieldMap ++ map_of (rev new)"
proof (induction new arbitrary: fieldMap)
  case Nil
  show ?case by (simp add: mergeInto_Nil)
next
  case (Cons kv new)
  obtain k v where kv: "kv = (k, v)" by (cases kv)
  show ?case
    by (simp add: kv mergeInto_Cons Cons.IH update_conv' map_add_upd_left fun_eq_iff map_add_def
        split: option.splits)
qed

text \<open>
  C6. \<^verbatim>\<open>collectStructFields\<close> enters into the one map it is given the declared
  fields of the struct in declaration order, those of an embedded struct in the place of
  the embedded field. It fails only where a struct embeds something that is no struct,
  never on a name that occurs twice: the map then holds, for each name, the reference
  of the field declared last under that name (the first entry of that name in the
  reversed list), and what it held before for the names the struct does not declare.
\<close>

theorem embedded_fields_merge_last_wins:
  "collectStructFields var ref t fieldMap = map_option (mergeInto fieldMap) (declaredFields var ref t)
   \<and> (declaredFields var ref t = Some new \<longrightarrow>
        collectStructFields var ref t fieldMap \<noteq> None
        \<and> map_of (the (collectStructFields var ref t fieldMap)) name =
            (case map_of (rev new) name of
               Some r \<Rightarrow> Some r
             | None \<Rightarrow> map_of fieldMap name))"
  by (auto simp: collect_is_merge map_of_mergeInto map_add_def split: option.splits)

text \<open>
  \<^verbatim>\<open>ProductRef\<close> of \<^verbatim>\<open>TestEmbedded\<close>, and a struct that embeds two structs with
  a field \<^verbatim>\<open>Name\<close> each: the second one wins.
\<close>

definition productRefT :: rtype where
  "productRefT = StructT ''ProductRef''
     [StructField ''Product'' productT True [], StructField ''Link'' stringT False []]"

definition twoNamesT :: rtype where
  "twoNamesT = StructT ''TwoNames''
     [StructField ''Product'' productT True [],
      StructField ''Named'' nameOnlyT True [],
      StructField ''Link'' stringT False []]"

lemma declared_twoNames:
  "declaredFields var [] twoNamesT =
     Some [(''Name'', [0, 0]), (''Country'', [0, 1]), (''Name'', [1, 0]), (''Link'', [2])]"
  by (simp add: twoNamesT_def productT_def nameOnlyT_def ignoredField_def Lookup_def
      split: variant.splits)

theorem embedded_fields_merge_last_wins_witness:
  "collectStructFields DtoGo [] productRefT []
     = Some [(''Name'', [0, 0]), (''Country'', [0, 1]), (''Link'', [1])]
   \<and> collectStructFields DtoGo [] twoNamesT []
     = Some [(''Name'', [1, 0]), (''Country'', [0, 1]), (''Link'', [2])]
   \<and> map_of (the (collectStructFields Part000 [] twoNamesT [])) ''Name'' = Some [1, 0]"
proof -
  have "collectStructFields DtoGo [] productRefT []
     = Some [(''Name'', [0, 0]), (''Country'', [0, 1]), (''Link'', [1])]"
    by (simp add: productRefT_def productT_def ignoredField_def)
  moreover have "collectStructFields DtoGo [] twoNamesT []
     = Some [(''Name'', [1, 0]), (''Country'', [0, 1]), (''Link'', [2])]"
    using embedded_fields_merge_last_wins [of DtoGo "[]" twoNamesT "[]"]
    by (simp add: declared_twoNames mergeInto_def)
  moreover have "map_of (the (collectStructFields Part000 [] twoNamesT [])) ''Name'' = Some [1, 0]"
    using embedded_fields_merge_last_wins [of Part000 "[]" twoNamesT "[]"
        "[(''Name'', [0, 0]), (''Country'', [0, 1]), (''Name'', [1, 0]), (''Link'', [2])]" "''Name''"]
    by (simp add: declared_twoNames mergeInto_def)
  ultimately show ?thesis by simp
qed

section \<open>The ignore tag\<close>

lemma HasPrefix_prefix: "HasPrefix s sub = (\<exists>post. s = sub @ post)"
  by (induction s sub rule: HasPrefix.induct) auto

lemma Contains_substring: "Contains s sub = (\<exists>pre post. s = pre @ sub @ post)"
proof (induction s)
  case Nil
  show ?case by simp
next
  case (Cons d ds)
  have "(\<exists>pre post. d # ds = pre @ sub @ post)
      = ((\<exists>post. d # ds = sub @ post) \<or> (\<exists>pre post. ds = pre @ sub @ post))"
  proof
    assume "\<exists>pre post. d # ds = pre @ sub @ post"
    then obtain pre post where eq: "d # ds = pre @ sub @ post" by blast
    show "(\<exists>post. d # ds = sub @ post) \<or> (\<exists>pre post. ds = pre @ sub @ post)"
    proof (cases pre)
      case Nil
      with eq show ?thesis by auto
    next
      case (Cons c pre')
      with eq have "ds = pre' @ sub @ post" by simp
      then show ?thesis by blast
    qed
  next
    assume "(\<exists>post. d # ds = sub @ post) \<or> (\<exists>pre post. ds = pre @ sub @ post)"
    then show "\<exists>pre post. d # ds = pre @ sub @ post"
    proof
      assume "\<exists>post. d # ds = sub @ post"
      then obtain post where "d # ds = [] @ sub @ post" by auto
      then show ?thesis by blast
    next
      assume "\<exists>pre post. ds = pre @ sub @ post"
      then obtain pre post where "d # ds = (d # pre) @ sub @ post" by auto
      then show ?thesis by blast
    qed
  qed
  with Cons.IH show ?case by (simp add: HasPrefix_prefix)
qed

text \<open>
  C9. \<^verbatim>\<open>Contains\<close> holds exactly when the second string occurs somewhere in the
  first. In the second file, a field whose \<^verbatim>\<open>dto\<close> tag contains \<^verbatim>\<open>ignore\<close>
  anywhere is passed over by the loop of \<^verbatim>\<open>collectStructFields\<close>: neither its name
  nor its type nor whether it is anonymous is looked at.
\<close>

theorem ignore_tag_is_substring:
  "Contains tags sub = (\<exists>pre post. tags = pre @ sub @ post)
   \<and> (Lookup (Tag f) structTag = Some tags \<and> Contains tags ''ignore'' \<longrightarrow>
        collectFrom Part000 ref (f # rest) i fieldMap
          = collectFrom Part000 ref rest (i + 1) fieldMap)"
  by (simp add: Contains_substring [symmetric] ignoredField_def)

text \<open>
  \<^verbatim>\<open>Order\<close> of the tests, which embeds the interface \<^verbatim>\<open>json.Marshaler\<close>, with
  three tags: \<^verbatim>\<open>noignore\<close> and \<^verbatim>\<open>ignores\<close> make the resolver skip the embedded
  interface; with \<^verbatim>\<open>ignor\<close> it is not skipped and \<^verbatim>\<open>NumField\<close> panics on it.
\<close>

definition marshalerT :: rtype where
  "marshalerT = BasicT ''json.Marshaler'' PInterface"

definition orderT :: "string \<Rightarrow> rtype" where
  "orderT tag = StructT ''Order''
     [StructField ''Id'' stringT False [],
      StructField ''Marshaler'' marshalerT True [(''json'', ''-''), (''dto'', tag)]]"

theorem ignore_tag_is_substring_witness:
  "Contains ''noignore'' ''ignore'' \<and> Contains ''ignores'' ''ignore''
   \<and> \<not> Contains ''ignor'' ''ignore''
   \<and> collectStructFields Part000 [] (orderT ''noignore'') [] = Some [(''Id'', [0])]
   \<and> collectStructFields Part000 [] (orderT ''ignores'') [] = Some [(''Id'', [0])]
   \<and> collectStructFields Part000 [] (orderT ''ignor'') [] = None"
proof -
  have c: "Contains ''noignore'' ''ignore''" "Contains ''ignores'' ''ignore''"
      "\<not> Contains ''ignor'' ''ignore''"
    by simp_all
  have l: "Lookup (Tag (StructField ''Marshaler'' marshalerT True [(''json'', ''-''), (''dto'', tag)]))
      structTag = Some tag" for tag
    by (simp add: Lookup_def structTag_def)
  note skip = ignore_tag_is_substring [of _ "''ignore''"
      "StructField ''Marshaler'' marshalerT True [(''json'', ''-''), (''dto'', tag)]" "[]" "[]" 1
      "[(''Id'', [0])]" for tag]
  have "collectStructFields Part000 [] (orderT ''noignore'') [] = Some [(''Id'', [0])]"
    using skip [of "''noignore''" "''noignore''"] l [of "''noignore''"] c(1)
    by (simp add: orderT_def ignoredField_def Lookup_def)
  moreover have "collectStructFields Part000 [] (orderT ''ignores'') [] = Some [(''Id'', [0])]"
    using skip [of "''ignores''" "''ignores''"] l [of "''ignores''"] c(2)
    by (simp add: orderT_def ignoredField_def Lookup_def)
  moreover have "collectStructFields Part000 [] (orderT ''ignor'') [] = None"
    by (simp add: orderT_def ignoredField_def Lookup_def structTag_def marshalerT_def)
  ultimately show ?thesis using c by simp
qed

end
